theory Spec2Isabelle
  imports Complex_Main "HOL-Library.Multiset"
begin

section \<open>Values\<close>

text \<open>
  The notebook \<^verbatim>\<open>kilauea_altair_final.ipynb\<close> is a linear sequence of table
  transformations. Timestamps (pandas \<^verbatim>\<open>datetime64[ns]\<close>) are integers, the number
  of nanoseconds since the epoch. Magnitudes and depths are the finite numbers read from the
  catalogue files.

  A numpy \<^verbatim>\<open>float64\<close> result is a finite number, an infinity or NaN. In the
  operations of this section a finite result is the exact real number; the rounding of
  binary64 is added to them in the section on binary64 below, for the denominator of the
  b-value, where the last digits decide. Every divisor of the program that can be zero is a difference of two numbers
  or a square root, which is \<^verbatim>\<open>+0.0\<close>, so a quotient by zero takes the sign of
  its numerator. numpy warns on such a division and returns the special value; it does not
  raise.
\<close>

datatype npfloat = Fin real | PInf | NInf | NaN

datatype py_error = IndexError | ValueError

fun np_sub :: "npfloat \<Rightarrow> npfloat \<Rightarrow> npfloat" where
  "np_sub NaN y = NaN"
| "np_sub x NaN = NaN"
| "np_sub (Fin a) (Fin b) = Fin (a - b)"
| "np_sub (Fin a) PInf = NInf"
| "np_sub (Fin a) NInf = PInf"
| "np_sub PInf PInf = NaN"
| "np_sub NInf NInf = NaN"
| "np_sub PInf y = PInf"
| "np_sub NInf y = NInf"

fun np_mul :: "npfloat \<Rightarrow> npfloat \<Rightarrow> npfloat" where
  "np_mul NaN y = NaN"
| "np_mul x NaN = NaN"
| "np_mul (Fin a) (Fin b) = Fin (a * b)"
| "np_mul (Fin a) PInf = (if a = 0 then NaN else if 0 < a then PInf else NInf)"
| "np_mul (Fin a) NInf = (if a = 0 then NaN else if 0 < a then NInf else PInf)"
| "np_mul PInf (Fin b) = (if b = 0 then NaN else if 0 < b then PInf else NInf)"
| "np_mul NInf (Fin b) = (if b = 0 then NaN else if 0 < b then NInf else PInf)"
| "np_mul PInf PInf = PInf"
| "np_mul NInf NInf = PInf"
| "np_mul PInf NInf = NInf"
| "np_mul NInf PInf = NInf"

fun np_div :: "npfloat \<Rightarrow> npfloat \<Rightarrow> npfloat" where
  "np_div NaN y = NaN"
| "np_div x NaN = NaN"
| "np_div (Fin a) (Fin b) =
     (if b \<noteq> 0 then Fin (a / b)
      else if a = 0 then NaN else if 0 < a then PInf else NInf)"
| "np_div (Fin a) y = Fin 0"
| "np_div PInf (Fin b) = (if 0 \<le> b then PInf else NInf)"
| "np_div NInf (Fin b) = (if 0 \<le> b then NInf else PInf)"
| "np_div x y = NaN"

definition np_mean :: "real list \<Rightarrow> npfloat" where
  \<comment> \<open>\<^verbatim>\<open>np.mean\<close>: of an empty array it warns and returns NaN.\<close>
  "np_mean xs = (if xs = [] then NaN else Fin (sum_list xs / real (length xs)))"

section \<open>The statistics of a set of earthquakes\<close>

text \<open>
  \<^verbatim>\<open>
  class SetStats:
      def __init__(self, mags, magC):
          self.mags = mags
          self.mc = magC
          self.Ntot = len(self.mags)
          self.magmu = np.mean(self.mags)
      def getB(self):
          b_est = math.log10(math.e)/(self.magmu-(self.mc - 0.5*0.1))
          return b_est
      def getB_err(self):
          b_err = self.getB()/math.sqrt(self.Ntot)
          return b_err
      def getA(self):
          a = math.log10(self.Ntot) - self.getB()*self.mc
          return a
  \<close>
  \<^verbatim>\<open>math.log10(0)\<close> raises ValueError; \<^verbatim>\<open>math.sqrt(0)\<close> is 0.0.
\<close>

record SetStats =
  mags :: "real list"
  mc :: real
  Ntot :: nat
  magmu :: npfloat

definition SetStats_init :: "real list \<Rightarrow> real \<Rightarrow> SetStats" where
  "SetStats_init ms magC =
     \<lparr>mags = ms, mc = magC, Ntot = length ms, magmu = np_mean ms\<rparr>"

definition getB :: "SetStats \<Rightarrow> npfloat" where
  "getB self = np_div (Fin (log 10 (exp 1))) (np_sub (magmu self) (Fin (mc self - 0.5 * 0.1)))"

definition getB_err :: "SetStats \<Rightarrow> npfloat" where
  "getB_err self = np_div (getB self) (Fin (sqrt (real (Ntot self))))"

definition getA :: "SetStats \<Rightarrow> py_error + npfloat" where
  "getA self =
     (if Ntot self = 0 then Inl ValueError
      else Inr (np_sub (Fin (log 10 (real (Ntot self)))) (np_mul (getB self) (Fin (mc self)))))"

section \<open>The b-values of every set and completeness magnitude\<close>

text \<open>
  \<^verbatim>\<open>
  events_stats = events[['mag','ex_set']]
  events_stats = events_stats[events_stats.ex_set != 0]

  mag_min = [1.8,1.9,2.0,2.1,2.2,2.3,2.4]
  bvals_df = pd.DataFrame(index=events_stats.ex_set.unique(), columns=mag_min)
  berrs_df = pd.DataFrame(index=events_stats.ex_set.unique(), columns=mag_min)
  for setnum in events_stats.ex_set.unique():
      for magc in mag_min:
          events_list = events_stats.loc[(events_stats.mag >= magc) & (events_stats.ex_set == setnum)].mag.values
          statsobj = SetStats(events_list, magc)
          b = statsobj.getB()
          bvals_df.loc[setnum, magc] = b
          berr = statsobj.getB_err()
          berrs_df.loc[setnum, magc] = berr
  bvals_df['ex_set'] = range(1,51)
  berrs_df['ex_set'] = range(1,51)
  \<close>
  A row of \<^verbatim>\<open>events_stats\<close> is a pair (mag, ex_set). A table of results maps the
  label of a row (a set number) and of a column (a completeness magnitude) to its cell, and is
  \<open>None\<close> where the table has no cell.
\<close>

record earthquake =
  DTtime :: int
  depth :: real
  mag :: real
  latitude :: real
  longitude :: real
  ex_set :: int

type_synonym stats_row = "real \<times> int"

type_synonym table = "int \<times> real \<Rightarrow> npfloat option"

definition events_stats :: "earthquake list \<Rightarrow> stats_row list" where
  "events_stats events = filter (\<lambda>(m, s). s \<noteq> 0) (map (\<lambda>e. (mag e, ex_set e)) events)"

definition unique :: "'a list \<Rightarrow> 'a list" where
  \<comment> \<open>the distinct values in the order of their first appearance\<close>
  "unique xs = rev (remdups (rev xs))"

definition mag_min :: "real list" where
  "mag_min = [1.8, 1.9, 2.0, 2.1, 2.2, 2.3, 2.4]"

definition new_table :: "int list \<Rightarrow> real list \<Rightarrow> table" where
  "new_table idx cols = (\<lambda>(s, m). if s \<in> set idx \<and> m \<in> set cols then Some NaN else None)"

definition events_list :: "stats_row list \<Rightarrow> int \<Rightarrow> real \<Rightarrow> real list" where
  "events_list es setnum magc = map fst (filter (\<lambda>(m, s). m \<ge> magc \<and> s = setnum) es)"

definition magc_step :: "stats_row list \<Rightarrow> int \<Rightarrow> real \<Rightarrow> table \<times> table \<Rightarrow> table \<times> table" where
  "magc_step es setnum magc tabs =
     (let statsobj = SetStats_init (events_list es setnum magc) magc;
          b = getB statsobj;
          bvals_df = (fst tabs)((setnum, magc) \<mapsto> b);
          berr = getB_err statsobj;
          berrs_df = (snd tabs)((setnum, magc) \<mapsto> berr)
      in (bvals_df, berrs_df))"

definition setnum_step :: "stats_row list \<Rightarrow> int \<Rightarrow> table \<times> table \<Rightarrow> table \<times> table" where
  "setnum_step es setnum tabs = fold (magc_step es setnum) mag_min tabs"

definition bvalue_loop :: "stats_row list \<Rightarrow> table \<times> table" where
  "bvalue_loop es =
     (let idx = unique (map snd es)
      in fold (setnum_step es) idx (new_table idx mag_min, new_table idx mag_min))"

definition statsobj :: "stats_row list \<Rightarrow> int \<Rightarrow> real \<Rightarrow> SetStats" where
  \<comment> \<open>the object that the loop body builds for \<^verbatim>\<open>setnum\<close> and \<^verbatim>\<open>magc\<close>\<close>
  "statsobj es setnum magc = SetStats_init (events_list es setnum magc) magc"

definition bvals_df :: "earthquake list \<Rightarrow> table" where
  "bvals_df events = fst (bvalue_loop (events_stats events))"

definition berrs_df :: "earthquake list \<Rightarrow> table" where
  "berrs_df events = snd (bvalue_loop (events_stats events))"

definition set_labels :: "earthquake list \<Rightarrow> py_error + (int \<times> int) list" where
  \<comment> \<open>the column \<^verbatim>\<open>ex_set = range(1,51)\<close> beside the index, after the loop: on a
      table with no rows pandas makes fifty rows with the labels 0 to 49 (their cells NaN), on
      a table with fifty rows it writes the column, and otherwise it raises ValueError\<close>
  "set_labels events =
     (let idx = unique (map snd (events_stats events))
      in if idx = [] then Inr (zip (map int [0..<50]) (map int [1..<51]))
         else if length idx = 50 then Inr (zip idx (map int [1..<51]))
         else Inl ValueError)"

section \<open>The sets of earthquakes between explosions\<close>

text \<open>
  \<^verbatim>\<open>
  events.sort_values(by=['DTtime'], inplace=True, ascending=True)
  explode.sort_values(by=['DTtime'], inplace=True, ascending=True)

  start_times = explode.DTtime[12:-1].tolist()
  end_times = explode.DTtime[13:].tolist()

  events['ex_set'] = 0
  i=1 # start with group 1
  for start, end in zip(start_times, end_times):
      mask = (events['DTtime'] >= start) & (events['DTtime'] < end)
      events.loc[mask,'ex_set'] = i
      i+= 1 # increase counter for the next group
  mask = events['DTtime'] > end_times[-1]
  events.loc[mask, 'ex_set'] = i
  \<close>
  \<^verbatim>\<open>end_times[-1]\<close> raises IndexError when the catalogue of explosions has
  fewer than fourteen rows. The order in which pandas leaves rows of equal time is not
  fixed; nothing below depends on it.
\<close>

definition start_times :: "int list \<Rightarrow> int list" where
  "start_times explode = butlast (drop 12 explode)"

definition end_times :: "int list \<Rightarrow> int list" where
  "end_times explode = drop 13 explode"

definition set_mask :: "(earthquake \<Rightarrow> bool) \<Rightarrow> int \<Rightarrow> earthquake list \<Rightarrow> earthquake list" where
  \<comment> \<open>\<^verbatim>\<open>events.loc[mask,'ex_set'] = i\<close>\<close>
  "set_mask msk i events = map (\<lambda>e. if msk e then e\<lparr>ex_set := i\<rparr> else e) events"

fun assign_loop :: "(int \<times> int) list \<Rightarrow> int \<Rightarrow> earthquake list \<Rightarrow> earthquake list \<times> int" where
  "assign_loop [] i events = (events, i)"
| "assign_loop ((start, stop) # ps) i events =
     assign_loop ps (i + 1) (set_mask (\<lambda>e. DTtime e \<ge> start \<and> DTtime e < stop) i events)"

definition assign_sets :: "int list \<Rightarrow> earthquake list \<Rightarrow> py_error + earthquake list" where
  "assign_sets explode events =
     (let events0 = map (\<lambda>e. e\<lparr>ex_set := 0\<rparr>) events;
          (events1, i) = assign_loop (zip (start_times explode) (end_times explode)) 1 events0
      in if end_times explode = [] then Inl IndexError
         else Inr (set_mask (\<lambda>e. DTtime e > last (end_times explode)) i events1))"

definition group_earthquakes :: "int list \<Rightarrow> earthquake list \<Rightarrow> py_error + earthquake list" where
  \<comment> \<open>from the tables as read: both are sorted by time first\<close>
  "group_earthquakes explode_times events = assign_sets (sort explode_times) (sort_key DTtime events)"

section \<open>Frequency-magnitude data\<close>

text \<open>
  \<^verbatim>\<open>
  events_mags = events.drop(['DTtime','magType', 'latitude', 'longitude'], axis=1)
  events_mags['mag'] = events_mags['mag'].round(decimals=1)
  quake_sum = events_mags.pivot_table(index='mag', columns='ex_set',
                          values='depth', aggfunc='count', fill_value=0)
  quake_sum_div = quake_sum.div(quake_sum.max(axis=0), axis=1)

  quake_cumsum = quake_sum[::-1].cumsum()
  quake_cumsum.sort_values('mag', inplace=True)
  quake_cumsum_norm = quake_cumsum.div(quake_cumsum.max(axis=0), axis=1)
  \<close>
  A frame with the magnitude bins as index and the set numbers as columns is the list of its
  rows in order, each the label of the row and its cells by column. The pivot table has a row
  for each rounded magnitude that occurs and a column for each set number that occurs, both
  in ascending order. numpy rounds to one decimal by rounding ten times the value to the
  nearest integer, a tie to the even one. The columns that were dropped are not read again.
\<close>

type_synonym 'v frame = "(real \<times> (int \<Rightarrow> 'v)) list"

definition rint :: "real \<Rightarrow> int" where
  "rint x =
     (let f = \<lfloor>x\<rfloor>
      in if x - of_int f < 1 / 2 then f
         else if 1 / 2 < x - of_int f then f + 1
         else if even f then f else f + 1)"

definition round1 :: "real \<Rightarrow> real" where
  "round1 x = of_int (rint (x * 10)) / 10"

definition events_mags :: "earthquake list \<Rightarrow> earthquake list" where
  "events_mags events = map (\<lambda>e. e\<lparr>mag := round1 (mag e)\<rparr>) events"

definition pivot_index :: "earthquake list \<Rightarrow> real list" where
  "pivot_index em = sort (remdups (map mag em))"

definition pivot_columns :: "earthquake list \<Rightarrow> int list" where
  "pivot_columns em = sort (remdups (map ex_set em))"

definition pivot_count :: "earthquake list \<Rightarrow> real \<Rightarrow> int \<Rightarrow> int" where
  "pivot_count em m s = int (length (filter (\<lambda>e. mag e = m \<and> ex_set e = s) em))"

definition quake_sum :: "earthquake list \<Rightarrow> int frame" where
  "quake_sum events =
     (let em = events_mags events in map (\<lambda>m. (m, pivot_count em m)) (pivot_index em))"

definition column_max :: "int frame \<Rightarrow> int \<Rightarrow> int" where
  \<comment> \<open>\<^verbatim>\<open>max(axis=0)\<close>, read only at the columns of a frame that has rows\<close>
  "column_max fr s = Max ((\<lambda>row. snd row s) ` set fr)"

definition frame_div :: "int frame \<Rightarrow> (int \<Rightarrow> int) \<Rightarrow> npfloat frame" where
  "frame_div fr d =
     map (\<lambda>(m, row). (m, \<lambda>s. np_div (Fin (of_int (row s))) (Fin (of_int (d s))))) fr"

definition quake_sum_div :: "earthquake list \<Rightarrow> npfloat frame" where
  "quake_sum_div events = frame_div (quake_sum events) (column_max (quake_sum events))"

fun cumsum_from :: "(int \<Rightarrow> int) \<Rightarrow> int frame \<Rightarrow> int frame" where
  "cumsum_from acc [] = []"
| "cumsum_from acc ((m, row) # fr) = (m, \<lambda>s. acc s + row s) # cumsum_from (\<lambda>s. acc s + row s) fr"

definition cumsum :: "int frame \<Rightarrow> int frame" where
  "cumsum fr = cumsum_from (\<lambda>s. 0) fr"

definition quake_cumsum :: "earthquake list \<Rightarrow> int frame" where
  "quake_cumsum events = sort_key fst (cumsum (rev (quake_sum events)))"

definition quake_cumsum_norm :: "earthquake list \<Rightarrow> npfloat frame" where
  "quake_cumsum_norm events = frame_div (quake_cumsum events) (column_max (quake_cumsum events))"

section \<open>The denominator of the b-value in binary64\<close>

text \<open>
  The operations of Python and numpy on \<^verbatim>\<open>float64\<close> round the exact result to the
  nearest number with 53 significant bits, a tie to the even one. \<open>rnd\<close> is that rounding;
  the exponent range of binary64 is not modelled (no overflow to an infinity, no subnormal
  numbers). The theorem on the denominator takes magnitudes of at most 16 and at most
  \<open>2\<^sup>3\<^sup>2\<close> of them, so that they, their sums and the quotients are far inside that range.
  A literal such as \<^verbatim>\<open>0.1\<close> is the
  rounded number \<open>rnd 0.1\<close>. The elements of an array are binary64 numbers, so that adding
  0.0 to one of them, as the summation loop does first, is exact.

  \<^verbatim>\<open>np.mean\<close> adds the elements of the array and divides by their number. The order
  and the grouping of the additions are numpy's (pairwise, in blocks) and not part of this
  program, so the sum is a relation: \<open>f64_sum xs S\<close> when \<open>S\<close> is the result of adding the
  elements of \<open>xs\<close> in some order and grouping, each addition rounded. The object that
  \<^verbatim>\<open>SetStats(mags, magC)\<close> builds is then any \<open>self\<close> with \<open>SetStats_f64 mags magC self\<close>.
  \<^verbatim>\<open>math.sqrt\<close> is correctly rounded; so is \<^verbatim>\<open>math.log10(math.e)\<close>, whose
  value is 0.4342944819032518.
\<close>

definition rnd :: "real \<Rightarrow> real" where
  "rnd x =
     (if x = 0 then 0
      else of_int (rint (x / 2 powr of_int (\<lfloor>log 2 \<bar>x\<bar>\<rfloor> - 52))) *
           2 powr of_int (\<lfloor>log 2 \<bar>x\<bar>\<rfloor> - 52))"

inductive f64_sum :: "real list \<Rightarrow> real \<Rightarrow> bool" where
  one: "f64_sum [x] x"
| add: "f64_sum xs a \<Longrightarrow> f64_sum ys b \<Longrightarrow> f64_sum (xs @ ys) (rnd (a + b))"
| perm: "f64_sum xs a \<Longrightarrow> mset ys = mset xs \<Longrightarrow> f64_sum ys a"

definition np_mean_f64 :: "real list \<Rightarrow> npfloat \<Rightarrow> bool" where
  "np_mean_f64 xs v =
     (if xs = [] then v = NaN
      else \<exists>S. f64_sum xs S \<and> v = Fin (rnd (S / real (length xs))))"

fun np_rnd :: "npfloat \<Rightarrow> npfloat" where
  "np_rnd (Fin x) = Fin (rnd x)"
| "np_rnd v = v"

definition f64_sub :: "npfloat \<Rightarrow> npfloat \<Rightarrow> npfloat" where
  "f64_sub x y = np_rnd (np_sub x y)"

definition f64_div :: "npfloat \<Rightarrow> npfloat \<Rightarrow> npfloat" where
  "f64_div x y = np_rnd (np_div x y)"

definition SetStats_f64 :: "real list \<Rightarrow> real \<Rightarrow> SetStats \<Rightarrow> bool" where
  "SetStats_f64 ms magC self =
     (mags self = ms \<and> mc self = magC \<and> Ntot self = length ms \<and> np_mean_f64 ms (magmu self))"

definition math_log10_e :: real where
  "math_log10_e = rnd (log 10 (rnd (exp 1)))"

definition denominator_f64 :: "SetStats \<Rightarrow> npfloat" where
  "denominator_f64 self = f64_sub (magmu self) (Fin (rnd (mc self - rnd (rnd 0.5 * rnd 0.1))))"

definition getB_f64 :: "SetStats \<Rightarrow> npfloat" where
  "getB_f64 self = f64_div (Fin math_log10_e) (denominator_f64 self)"

definition getB_err_f64 :: "SetStats \<Rightarrow> npfloat" where
  "getB_err_f64 self = f64_div (getB_f64 self) (Fin (rnd (sqrt (real (Ntot self)))))"

section \<open>Views used in the proofs\<close>

text \<open>
  What the loop over the pairs of start and end times leaves in \<^verbatim>\<open>ex_set\<close> of one
  earthquake at time \<open>t\<close> whose set number was \<open>cur\<close> before, the counter being \<open>i\<close>;
  and the cells of one column of a frame, from the first row to the last.
\<close>

fun loop_id :: "(int \<times> int) list \<Rightarrow> int \<Rightarrow> int \<Rightarrow> int \<Rightarrow> int" where
  "loop_id [] i cur t = cur"
| "loop_id ((start, stop) # ps) i cur t =
     loop_id ps (i + 1) (if t \<ge> start \<and> t < stop then i else cur) t"

definition column :: "'v frame \<Rightarrow> int \<Rightarrow> 'v list" where
  "column fr s = map (\<lambda>row. snd row s) fr"

section \<open>The b-value tables\<close>

lemma fold_magc_step_fst:
  "fst (fold (magc_step es s) ms tabs) k =
     (if fst k = s \<and> snd k \<in> set ms
      then Some (getB (SetStats_init (events_list es s (snd k)) (snd k)))
      else fst tabs k)"
  by (induction ms arbitrary: tabs) (auto simp: magc_step_def Let_def)

lemma fold_magc_step_snd:
  "snd (fold (magc_step es s) ms tabs) k =
     (if fst k = s \<and> snd k \<in> set ms
      then Some (getB_err (SetStats_init (events_list es s (snd k)) (snd k)))
      else snd tabs k)"
  by (induction ms arbitrary: tabs) (auto simp: magc_step_def Let_def)

lemma fold_setnum_step_fst:
  "fst (fold (setnum_step es) ss tabs) k =
     (if fst k \<in> set ss \<and> snd k \<in> set mag_min
      then Some (getB (SetStats_init (events_list es (fst k) (snd k)) (snd k)))
      else fst tabs k)"
  by (induction ss arbitrary: tabs) (auto simp: setnum_step_def fold_magc_step_fst)

lemma fold_setnum_step_snd:
  "snd (fold (setnum_step es) ss tabs) k =
     (if fst k \<in> set ss \<and> snd k \<in> set mag_min
      then Some (getB_err (SetStats_init (events_list es (fst k) (snd k)) (snd k)))
      else snd tabs k)"
  by (induction ss arbitrary: tabs) (auto simp: setnum_step_def fold_magc_step_snd)

lemma set_unique: "set (unique xs) = set xs"
  by (simp add: unique_def)

lemma bvals_df_cell:
  "bvals_df events (s, m) =
     (if s \<in> snd ` set (events_stats events) \<and> m \<in> set mag_min
      then Some (getB (SetStats_init (events_list (events_stats events) s m) m))
      else None)"
  by (simp add: bvals_df_def bvalue_loop_def Let_def fold_setnum_step_fst set_unique new_table_def)

lemma berrs_df_cell:
  "berrs_df events (s, m) =
     (if s \<in> snd ` set (events_stats events) \<and> m \<in> set mag_min
      then Some (getB_err (SetStats_init (events_list (events_stats events) s m) m))
      else None)"
  by (simp add: berrs_df_def bvalue_loop_def Let_def fold_setnum_step_snd set_unique new_table_def)

lemma events_list_events:
  "s \<noteq> 0 \<Longrightarrow> events_list (events_stats events) s m =
     map mag (filter (\<lambda>e. ex_set e = s \<and> mag e \<ge> m) events)"
  by (induction events) (auto simp: events_list_def events_stats_def)

lemma events_list_nonempty_index:
  "events_list es s m \<noteq> [] \<Longrightarrow> s \<in> snd ` set es"
  by (induction es) (auto simp: events_list_def split: if_splits)

lemma sum_list_ge_length:
  fixes xs :: "real list"
  shows "\<forall>x\<in>set xs. c \<le> x \<Longrightarrow> c * real (length xs) \<le> sum_list xs"
  by (induction xs) (auto simp: algebra_simps)

lemma mean_ge:
  fixes xs :: "real list"
  assumes "xs \<noteq> []" "\<forall>x\<in>set xs. c \<le> x"
  shows "c \<le> sum_list xs / real (length xs)"
proof -
  have "0 < real (length xs)" using assms(1) by simp
  then show ?thesis using sum_list_ge_length [OF assms(2)]
    by (simp add: pos_le_divide_eq)
qed

lemma log10e_pos: "0 < log 10 (exp 1)"
  by simp

lemma getB_qualifying:
  assumes "ms \<noteq> []" "\<forall>x\<in>set ms. c \<le> x"
  shows "getB (SetStats_init ms c) = Fin (log 10 (exp 1) / (sum_list ms / real (length ms) - (c - 0.05)))"
proof -
  have "c \<le> sum_list ms / real (length ms)" using mean_ge [OF assms] .
  then have "sum_list ms / real (length ms) - (c - 0.5 * 0.1) \<noteq> 0" by simp
  then show ?thesis using assms(1)
    by (simp add: getB_def SetStats_init_def np_mean_def)
qed

lemma getB_err_qualifying:
  assumes "ms \<noteq> []" "getB (SetStats_init ms c) = Fin b"
  shows "getB_err (SetStats_init ms c) = Fin (b / sqrt (real (length ms)))"
proof -
  have "sqrt (real (length ms)) \<noteq> 0" using assms(1) by simp
  moreover have "getB_err (SetStats_init ms c) = np_div (Fin b) (Fin (sqrt (real (length ms))))"
    using assms(2) by (simp add: getB_err_def SetStats_init_def)
  ultimately show ?thesis by simp
qed

text \<open>
  Claim C3. For a set \<open>s\<close> other than 0 and a completeness magnitude \<open>m\<close> of
  \<^verbatim>\<open>mag_min\<close>, let \<open>q\<close> be the magnitudes of the earthquakes of the set that are at
  least \<open>m\<close>. When there is one, the cell of \<^verbatim>\<open>bvals_df\<close> for \<open>s\<close> and \<open>m\<close> is
  \<open>log\<^sub>1\<^sub>0 e\<close> divided by the arithmetic mean of \<open>q\<close> minus \<open>m - 0.05\<close>.
\<close>

theorem bvalue_formula:
  assumes "m \<in> set mag_min" and "s \<noteq> 0"
    and "q = map mag (filter (\<lambda>e. ex_set e = s \<and> mag e \<ge> m) events)" and "q \<noteq> []"
  shows "bvals_df events (s, m) =
           Some (Fin (log 10 (exp 1) / (sum_list q / real (length q) - (m - 0.05))))"
proof -
  have el: "events_list (events_stats events) s m = q"
    using assms(2,3) by (simp add: events_list_events)
  have idx: "s \<in> snd ` set (events_stats events)"
    using el assms(4) events_list_nonempty_index by metis
  have ge: "\<forall>x\<in>set q. m \<le> x" using assms(3) by simp
  show ?thesis
    using idx assms(1) by (simp add: bvals_df_cell el getB_qualifying [OF assms(4) ge])
qed

theorem bvalue_formula_witness:
  "bvals_df [\<lparr>DTtime = 5, depth = 1, mag = 2, latitude = 19, longitude = -155, ex_set = 1\<rparr>,
             \<lparr>DTtime = 6, depth = 1, mag = 3, latitude = 19, longitude = -155, ex_set = 1\<rparr>,
             \<lparr>DTtime = 7, depth = 1, mag = 1.7, latitude = 19, longitude = -155, ex_set = 1\<rparr>] (1, 1.8)
     = Some (Fin (log 10 (exp 1) / (5 / 2 - (1.8 - 0.05))))"
  using bvalue_formula [of "1.8" 1 "[2, 3]"
      "[\<lparr>DTtime = 5, depth = 1, mag = 2, latitude = 19, longitude = -155, ex_set = 1\<rparr>,
        \<lparr>DTtime = 6, depth = 1, mag = 3, latitude = 19, longitude = -155, ex_set = 1\<rparr>,
        \<lparr>DTtime = 7, depth = 1, mag = 1.7, latitude = 19, longitude = -155, ex_set = 1\<rparr>]"]
  by (simp add: mag_min_def)

text \<open>
  Claim C4. With at least one qualifying earthquake, the cell of \<^verbatim>\<open>berrs_df\<close> is
  the cell of \<^verbatim>\<open>bvals_df\<close> divided by the square root of the number of qualifying
  earthquakes.
\<close>

theorem b_error_formula:
  assumes "m \<in> set mag_min" and "s \<noteq> 0"
    and "q = map mag (filter (\<lambda>e. ex_set e = s \<and> mag e \<ge> m) events)" and "1 \<le> length q"
  shows "\<exists>b. bvals_df events (s, m) = Some (Fin b) \<and>
             berrs_df events (s, m) = Some (Fin (b / sqrt (real (length q))))"
proof -
  have ne: "q \<noteq> []" using assms(4) by auto
  have el: "events_list (events_stats events) s m = q"
    using assms(2,3) by (simp add: events_list_events)
  have idx: "s \<in> snd ` set (events_stats events)"
    using el ne events_list_nonempty_index by metis
  have ge: "\<forall>x\<in>set q. m \<le> x" using assms(3) by simp
  define b where "b = log 10 (exp 1) / (sum_list q / real (length q) - (m - 0.05))"
  have gb: "getB (SetStats_init q m) = Fin b"
    unfolding b_def by (rule getB_qualifying [OF ne ge])
  have "bvals_df events (s, m) = Some (Fin b)"
    using idx assms(1) by (simp add: bvals_df_cell el gb)
  moreover have "berrs_df events (s, m) = Some (Fin (b / sqrt (real (length q))))"
    using idx assms(1) by (simp add: berrs_df_cell el getB_err_qualifying [OF ne gb])
  ultimately show ?thesis by blast
qed

theorem b_error_formula_witness:
  "\<exists>b. bvals_df [\<lparr>DTtime = 5, depth = 1, mag = 2, latitude = 19, longitude = -155, ex_set = 3\<rparr>,
                  \<lparr>DTtime = 6, depth = 1, mag = 3, latitude = 19, longitude = -155, ex_set = 3\<rparr>] (3, 1.9)
          = Some (Fin b) \<and>
       berrs_df [\<lparr>DTtime = 5, depth = 1, mag = 2, latitude = 19, longitude = -155, ex_set = 3\<rparr>,
                 \<lparr>DTtime = 6, depth = 1, mag = 3, latitude = 19, longitude = -155, ex_set = 3\<rparr>] (3, 1.9)
          = Some (Fin (b / sqrt 2))"
  using b_error_formula [of "1.9" 3 "[2, 3]"
      "[\<lparr>DTtime = 5, depth = 1, mag = 2, latitude = 19, longitude = -155, ex_set = 3\<rparr>,
        \<lparr>DTtime = 6, depth = 1, mag = 3, latitude = 19, longitude = -155, ex_set = 3\<rparr>]"]
  by (simp add: mag_min_def)

lemma bvalue_loop_eq:
  "bvalue_loop es =
     (\<lambda>(s, m). if s \<in> snd ` set es \<and> m \<in> set mag_min
                then Some (getB (statsobj es s m)) else None,
      \<lambda>(s, m). if s \<in> snd ` set es \<and> m \<in> set mag_min
                then Some (getB_err (statsobj es s m)) else None)"
proof (rule prod_eqI)
  show "fst (bvalue_loop es) = fst (\<lambda>(s, m). if s \<in> snd ` set es \<and> m \<in> set mag_min
                then Some (getB (statsobj es s m)) else None,
      \<lambda>(s, m). if s \<in> snd ` set es \<and> m \<in> set mag_min
                then Some (getB_err (statsobj es s m)) else None)"
    by (rule ext)
      (simp add: bvalue_loop_def Let_def fold_setnum_step_fst set_unique new_table_def statsobj_def
        split_def)
  show "snd (bvalue_loop es) = snd (\<lambda>(s, m). if s \<in> snd ` set es \<and> m \<in> set mag_min
                then Some (getB (statsobj es s m)) else None,
      \<lambda>(s, m). if s \<in> snd ` set es \<and> m \<in> set mag_min
                then Some (getB_err (statsobj es s m)) else None)"
    by (rule ext)
      (simp add: bvalue_loop_def Let_def fold_setnum_step_snd set_unique new_table_def statsobj_def
        split_def)
qed

lemma events_list_ge: "x \<in> set (events_list es s m) \<Longrightarrow> m \<le> x"
  by (auto simp: events_list_def)

lemma bvals_df_cell_pos:
  assumes "bvals_df events k = Some (Fin x)"
  shows "0 < x"
proof -
  obtain s m where k: "k = (s, m)" by (cases k)
  let ?q = "events_list (events_stats events) s m"
  have c: "getB (SetStats_init ?q m) = Fin x"
    using assms unfolding k bvals_df_cell by (simp split: if_splits)
  have ne: "?q \<noteq> []"
    using c by (auto simp: getB_def SetStats_init_def np_mean_def)
  have ge: "\<forall>y\<in>set ?q. m \<le> y" using events_list_ge by blast
  define b where "b = log 10 (exp 1) / (sum_list ?q / real (length ?q) - (m - 0.05))"
  have "m \<le> sum_list ?q / real (length ?q)" using mean_ge [OF ne ge] .
  then have "0 < sum_list ?q / real (length ?q) - (m - 0.05)" by simp
  then have b0: "0 < b" unfolding b_def using log10e_pos by (rule_tac divide_pos_pos)
  have gb: "getB (SetStats_init ?q m) = Fin b" unfolding b_def by (rule getB_qualifying [OF ne ge])
  have "x = b" using c gb by simp
  then show ?thesis using b0 by simp
qed

lemma berrs_df_cell_pos:
  assumes "berrs_df events k = Some (Fin x)"
  shows "0 < x"
proof -
  obtain s m where k: "k = (s, m)" by (cases k)
  let ?q = "events_list (events_stats events) s m"
  have c: "getB_err (SetStats_init ?q m) = Fin x"
    using assms unfolding k berrs_df_cell by (simp split: if_splits)
  have ne: "?q \<noteq> []"
    using c by (auto simp: getB_err_def getB_def SetStats_init_def np_mean_def)
  have ge: "\<forall>y\<in>set ?q. m \<le> y" using events_list_ge by blast
  define b where "b = log 10 (exp 1) / (sum_list ?q / real (length ?q) - (m - 0.05))"
  have "m \<le> sum_list ?q / real (length ?q)" using mean_ge [OF ne ge] .
  then have "0 < sum_list ?q / real (length ?q) - (m - 0.05)" by simp
  then have b0: "0 < b" unfolding b_def using log10e_pos by (rule_tac divide_pos_pos)
  have gb: "getB (SetStats_init ?q m) = Fin b" unfolding b_def by (rule getB_qualifying [OF ne ge])
  have "x = b / sqrt (real (length ?q))" using c getB_err_qualifying [OF ne gb] by simp
  moreover have "0 < sqrt (real (length ?q))" using ne by simp
  ultimately show ?thesis using b0 by simp
qed

text \<open>
  Claim C6, amended. For a set other than 0 and a completeness magnitude of
  \<^verbatim>\<open>mag_min\<close> with \<open>N \<ge> 1\<close> qualifying earthquakes, \<^verbatim>\<open>getA\<close> of the statistics
  object of the pair returns \<open>log\<^sub>1\<^sub>0 N\<close> minus the b-value times the completeness magnitude,
  the b-value being the one the loop stores for the pair. The loop itself does not call
  \<^verbatim>\<open>getA\<close>: all it computes are the two tables, of \<^verbatim>\<open>getB\<close> and of
  \<^verbatim>\<open>getB_err\<close> of those objects.
\<close>

theorem a_value_formula:
  assumes "m \<in> set mag_min" and "s \<noteq> 0"
    and "q = map mag (filter (\<lambda>e. ex_set e = s \<and> mag e \<ge> m) events)" and "q \<noteq> []"
  shows "getA (statsobj (events_stats events) s m) =
           Inr (Fin (log 10 (real (length q)) -
                     log 10 (exp 1) / (sum_list q / real (length q) - (m - 0.05)) * m)) \<and>
         bvals_df events (s, m) =
           Some (Fin (log 10 (exp 1) / (sum_list q / real (length q) - (m - 0.05)))) \<and>
         bvalue_loop (events_stats events) =
           (\<lambda>(s, m). if s \<in> snd ` set (events_stats events) \<and> m \<in> set mag_min
                      then Some (getB (statsobj (events_stats events) s m)) else None,
            \<lambda>(s, m). if s \<in> snd ` set (events_stats events) \<and> m \<in> set mag_min
                      then Some (getB_err (statsobj (events_stats events) s m)) else None)"
proof -
  have el: "events_list (events_stats events) s m = q"
    using assms(2,3) by (simp add: events_list_events)
  have idx: "s \<in> snd ` set (events_stats events)"
    using el assms(4) events_list_nonempty_index by metis
  have ge: "\<forall>x\<in>set q. m \<le> x" using assms(3) by simp
  define b where "b = log 10 (exp 1) / (sum_list q / real (length q) - (m - 0.05))"
  have gb: "getB (SetStats_init q m) = Fin b"
    unfolding b_def by (rule getB_qualifying [OF assms(4) ge])
  have "bvals_df events (s, m) = Some (Fin b)"
    using idx assms(1) by (simp add: bvals_df_cell el gb)
  moreover have "getA (SetStats_init q m) = Inr (Fin (log 10 (real (length q)) - b * m))"
    using assms(4) gb by (simp add: getA_def) (simp add: SetStats_init_def)
  ultimately show ?thesis
    using el bvalue_loop_eq [of "events_stats events"] by (simp add: statsobj_def b_def)
qed

theorem a_value_formula_witness:
  "getA (statsobj (events_stats
       [\<lparr>DTtime = 5, depth = 1, mag = 2, latitude = 19, longitude = -155, ex_set = 3\<rparr>,
        \<lparr>DTtime = 6, depth = 1, mag = 3, latitude = 19, longitude = -155, ex_set = 3\<rparr>,
        \<lparr>DTtime = 7, depth = 1, mag = 4, latitude = 19, longitude = -155, ex_set = 3\<rparr>]) 3 2.4) =
     Inr (Fin (log 10 2 - log 10 (exp 1) / (7 / 2 - (2.4 - 0.05)) * 2.4)) \<and>
   bvals_df
       [\<lparr>DTtime = 5, depth = 1, mag = 2, latitude = 19, longitude = -155, ex_set = 3\<rparr>,
        \<lparr>DTtime = 6, depth = 1, mag = 3, latitude = 19, longitude = -155, ex_set = 3\<rparr>,
        \<lparr>DTtime = 7, depth = 1, mag = 4, latitude = 19, longitude = -155, ex_set = 3\<rparr>] (3, 2.4) =
     Some (Fin (log 10 (exp 1) / (7 / 2 - (2.4 - 0.05))))"
  using a_value_formula [of "2.4" 3 "[3, 4]"
      "[\<lparr>DTtime = 5, depth = 1, mag = 2, latitude = 19, longitude = -155, ex_set = 3\<rparr>,
        \<lparr>DTtime = 6, depth = 1, mag = 3, latitude = 19, longitude = -155, ex_set = 3\<rparr>,
        \<lparr>DTtime = 7, depth = 1, mag = 4, latitude = 19, longitude = -155, ex_set = 3\<rparr>]"]
  by (simp add: mag_min_def)

text \<open>
  Claim C6, as stated, fails. For one earthquake of magnitude 3 in set 1 and the completeness
  magnitude 1.8, the a-value of the claim is \<open>log\<^sub>1\<^sub>0 1 - 1.8 b\<close>, a negative number, which
  \<^verbatim>\<open>getA\<close> would return; no cell of the two tables that the loop computes holds it
  (their finite cells are positive). And for a set whose only earthquake has magnitude 1.7
  there is no qualifying earthquake, and \<^verbatim>\<open>getA\<close> raises ValueError.
\<close>

theorem a_value_not_computed:
  "getA (statsobj (events_stats
       [\<lparr>DTtime = 5, depth = 1, mag = 3, latitude = 19, longitude = -155, ex_set = 1\<rparr>]) 1 1.8) =
     Inr (Fin (log 10 1 - log 10 (exp 1) / (3 - (1.8 - 0.05)) * 1.8)) \<and>
   (\<forall>k. bvals_df [\<lparr>DTtime = 5, depth = 1, mag = 3, latitude = 19, longitude = -155, ex_set = 1\<rparr>] k
          \<noteq> Some (Fin (log 10 1 - log 10 (exp 1) / (3 - (1.8 - 0.05)) * 1.8)) \<and>
        berrs_df [\<lparr>DTtime = 5, depth = 1, mag = 3, latitude = 19, longitude = -155, ex_set = 1\<rparr>] k
          \<noteq> Some (Fin (log 10 1 - log 10 (exp 1) / (3 - (1.8 - 0.05)) * 1.8))) \<and>
   getA (statsobj (events_stats
       [\<lparr>DTtime = 5, depth = 1, mag = 1.7, latitude = 19, longitude = -155, ex_set = 1\<rparr>]) 1 1.8) =
     Inl ValueError"
proof -
  let ?E = "[\<lparr>DTtime = 5, depth = 1, mag = 3, latitude = 19, longitude = -155, ex_set = 1\<rparr>]"
  define a :: real where "a = log 10 1 - log 10 (exp 1) / (3 - (1.8 - 0.05)) * 1.8"
  have "0 < log 10 (exp 1) / (3 - (1.8 - 0.05)) * 1.8"
    using log10e_pos by simp
  then have neg: "a < 0" by (simp add: a_def)
  have 1: "getA (statsobj (events_stats ?E) 1 1.8) = Inr (Fin a)"
    by (simp add: statsobj_def events_stats_def events_list_def getA_def getB_def
        SetStats_init_def np_mean_def a_def)
  have 2: "bvals_df ?E k \<noteq> Some (Fin a)" for k
    using bvals_df_cell_pos [of ?E k a] neg by auto
  have 3: "berrs_df ?E k \<noteq> Some (Fin a)" for k
    using berrs_df_cell_pos [of ?E k a] neg by auto
  have 4: "getA (statsobj (events_stats
       [\<lparr>DTtime = 5, depth = 1, mag = 1.7, latitude = 19, longitude = -155, ex_set = 1\<rparr>]) 1 1.8) =
     Inl ValueError"
    by (simp add: statsobj_def events_stats_def events_list_def getA_def SetStats_init_def)
  show ?thesis using 1 2 3 4 unfolding a_def by blast
qed

text \<open>
  In exact arithmetic the denominator of the b-value is at least 0.05 for a list of magnitudes
  that is not empty and whose members are all at least \<open>Mc\<close>.
\<close>

lemma exact_denominator:
  assumes "ms \<noteq> []" and "\<forall>x\<in>set ms. Mc \<le> x"
  shows "\<exists>d b. np_sub (magmu (SetStats_init ms Mc)) (Fin (mc (SetStats_init ms Mc) - 0.5 * 0.1)) = Fin d \<and>
           0.05 \<le> d \<and> 0 < d \<and>
           getB (SetStats_init ms Mc) = Fin b \<and> b = log 10 (exp 1) / d \<and> 0 < b \<and>
           0 < sqrt (real (Ntot (SetStats_init ms Mc))) \<and>
           getB_err (SetStats_init ms Mc) = Fin (b / sqrt (real (Ntot (SetStats_init ms Mc))))"
proof -
  define mu where "mu = sum_list ms / real (length ms)"
  define d where "d = mu - (Mc - 0.5 * 0.1)"
  define b where "b = log 10 (exp 1) / d"
  have mean: "Mc \<le> mu" unfolding mu_def using mean_ge [OF assms] .
  have half_bin: "(0.5::real) * 0.1 = 0.05" by simp
  have d1: "0.05 \<le> d" unfolding d_def half_bin using mean by linarith
  have d0: "0 < d" using d1 by simp
  have sub: "np_sub (magmu (SetStats_init ms Mc)) (Fin (mc (SetStats_init ms Mc) - 0.5 * 0.1)) = Fin d"
    using assms(1) by (simp add: SetStats_init_def np_mean_def d_def mu_def)
  have gb: "getB (SetStats_init ms Mc) = Fin b"
    using sub d0 by (simp add: getB_def b_def)
  have bpos: "0 < b" unfolding b_def using d0 log10e_pos by (rule_tac divide_pos_pos)
  have n: "0 < sqrt (real (Ntot (SetStats_init ms Mc)))"
    using assms(1) by (simp add: SetStats_init_def)
  have ge: "getB_err (SetStats_init ms Mc) = Fin (b / sqrt (real (Ntot (SetStats_init ms Mc))))"
    using getB_err_qualifying [OF assms(1) gb] by (simp add: SetStats_init_def)
  show ?thesis using sub d1 d0 gb bpos n ge b_def by blast
qed

text \<open>
  The error of one rounding is at most \<open>2\<^sup>-\<^sup>5\<^sup>3\<close> of the exact result, and within a binade
  the rounding is to a multiple of the unit in the last place.
\<close>

lemma rint_error: "\<bar>of_int (rint y) - y\<bar> \<le> 1 / 2"
proof -
  have "of_int \<lfloor>y\<rfloor> \<le> y" "y < of_int \<lfloor>y\<rfloor> + 1" by linarith+
  then show ?thesis by (auto simp: rint_def Let_def)
qed

lemma rint_of_int [simp]: "rint (of_int k) = k"
  by (simp add: rint_def)

lemma rnd_binade:
  assumes "2 powr of_int k \<le> \<bar>x\<bar>" and "\<bar>x\<bar> < 2 powr of_int (k + 1)"
  shows "rnd x = of_int (rint (x / 2 powr of_int (k - 52))) * 2 powr of_int (k - 52)"
proof -
  have pos: "0 < \<bar>x\<bar>" using assms(1) by (smt (verit) powr_gt_zero)
  have "\<lfloor>log 2 \<bar>x\<bar>\<rfloor> = k"
    using assms pos by (simp add: floor_log_eq_powr_iff)
  then show ?thesis using pos by (simp add: rnd_def)
qed

lemma rnd_error: "\<bar>rnd x - x\<bar> \<le> \<bar>x\<bar> / 2 ^ 53"
proof (cases "x = 0")
  case True
  then show ?thesis by (simp add: rnd_def)
next
  case False
  define k where "k = \<lfloor>log 2 \<bar>x\<bar>\<rfloor>"
  define p :: real where "p = 2 powr of_int (k - 52)"
  have pos: "0 < \<bar>x\<bar>" using False by simp
  have kx: "2 powr of_int k \<le> \<bar>x\<bar>"
    using pos floor_log_eq_powr_iff [of "\<bar>x\<bar>" 2 k] by (simp add: k_def)
  have p0: "0 < p" by (simp add: p_def)
  have r: "rnd x = of_int (rint (x / p)) * p"
    using False by (simp add: rnd_def k_def p_def)
  have "rnd x - x = (of_int (rint (x / p)) - x / p) * p"
    using p0 by (simp add: r left_diff_distrib)
  then have "\<bar>rnd x - x\<bar> = \<bar>of_int (rint (x / p)) - x / p\<bar> * p"
    using p0 by (simp add: abs_mult)
  also have "\<dots> \<le> 1 / 2 * p"
    using rint_error [of "x / p"] p0 by (intro mult_right_mono) simp_all
  finally have e: "\<bar>rnd x - x\<bar> \<le> p / 2" by simp
  have "p = 2 powr of_int k / 2 ^ 52"
    unfolding p_def by (simp add: powr_diff powr_realpow [symmetric])
  then have "p / 2 = 2 powr of_int k / 2 ^ 53" by simp
  also have "\<dots> \<le> \<bar>x\<bar> / 2 ^ 53" using kx by (simp add: divide_right_mono)
  finally show ?thesis using e by linarith
qed

lemma rnd_ge:
  assumes "0 \<le> x"
  shows "x * (1 - 1 / 2 ^ 53) \<le> rnd x"
  using rnd_error [of x] assms by (simp add: algebra_simps abs_if split: if_splits)

lemma rnd_pos: "0 < x \<Longrightarrow> 0 < rnd x"
proof -
  assume a: "0 < x"
  have "0 < x * (1 - 1 / 2 ^ 53)" using a by simp
  then show ?thesis using rnd_ge [of x] a by linarith
qed

lemma rnd_le_abs: "rnd x \<le> x + \<bar>x\<bar> / 2 ^ 53"
  using rnd_error [of x] by linarith

lemma rnd_eval_pos:
  assumes "2 ^ n \<le> \<bar>x\<bar>" and "\<bar>x\<bar> < 2 * 2 ^ n"
  shows "rnd x = of_int (rint (x * 2 ^ 52 / 2 ^ n)) * 2 ^ n / 2 ^ 52"
proof -
  have a: "2 powr of_int (int n) = (2::real) ^ n"
    by (simp add: powr_realpow)
  have b: "2 powr of_int (int n + 1) = (2::real) * 2 ^ n"
    by (simp add: powr_add powr_realpow)
  have c: "2 powr of_int (int n - 52) = (2::real) ^ n / 2 ^ 52"
    by (simp add: powr_diff powr_realpow)
  show ?thesis
    using rnd_binade [of "int n" x] assms unfolding a b c by simp
qed

lemma rnd_eval_neg:
  assumes "1 / 2 ^ n \<le> \<bar>x\<bar>" and "\<bar>x\<bar> < 2 / 2 ^ n"
  shows "rnd x = of_int (rint (x * 2 ^ (52 + n))) / 2 ^ (52 + n)"
proof -
  have a: "2 powr of_int (- int n) = 1 / (2::real) ^ n"
    by (simp add: powr_minus powr_realpow divide_inverse)
  have "(2::real) powr (1 - real n) = 2 powr 1 / 2 powr real n" by (rule powr_diff)
  then have b: "2 powr of_int (- int n + 1) = 2 / (2::real) ^ n"
    by (simp add: powr_realpow)
  have e: "real_of_int (- int n - 52) = - real (52 + n)" by simp
  have "(2::real) powr (- real (52 + n)) = inverse (2 powr real (52 + n))"
    by (rule powr_minus)
  also have "\<dots> = 1 / (2::real) ^ (52 + n)"
    by (simp only: powr_realpow zero_less_numeral inverse_eq_divide)
  finally have c: "2 powr of_int (- int n - 52) = 1 / (2::real) ^ (52 + n)"
    unfolding e .
  show ?thesis
    using rnd_binade [of "- int n" x] assms unfolding a b c by simp
qed

lemma rnd_2_1: "rnd 2.1 = 4728779608739021 / 2 ^ 51"
  using rnd_eval_pos [of 1 "2.1"] by (simp add: rint_def)

lemma rnd_0_1: "rnd 0.1 = 3602879701896397 / 2 ^ 55"
  using rnd_eval_neg [of 4 "0.1"] by (simp add: rint_def)

lemma rnd_0_5: "rnd 0.5 = 0.5"
  using rnd_eval_neg [of 1 "0.5"] by (simp add: rint_def)

lemma half_bin: "rnd (rnd 0.5 * rnd 0.1) = 3602879701896397 / 2 ^ 56"
  unfolding rnd_0_5 rnd_0_1
  using rnd_eval_neg [of 5 "0.5 * (3602879701896397 / 2 ^ 55)"] by (simp add: rint_def)

lemma sub_2_1: "rnd (4728779608739021 / 2 ^ 51 - 3602879701896397 / 2 ^ 56) = 4616189618054759 / 2 ^ 51"
  using rnd_eval_pos [of 1 "4728779608739021 / 2 ^ 51 - 3602879701896397 / 2 ^ 56"] by (simp add: rint_def)

lemma den_2_1: "rnd (4728779608739021 / 2 ^ 51 - 4616189618054759 / 2 ^ 51) = 56294995342131 / 2 ^ 50"
  using rnd_eval_neg [of 5 "4728779608739021 / 2 ^ 51 - 4616189618054759 / 2 ^ 51"] by (simp add: rint_def)

lemma f64_sum_ge:
  assumes "f64_sum xs S" and "0 \<le> c" and "\<forall>x\<in>set xs. c \<le> x"
  shows "xs \<noteq> [] \<and> real (length xs) * c * (1 - 1 / 2 ^ 53) ^ (length xs - 1) \<le> S"
  using assms
proof (induction rule: f64_sum.induct)
  case (one x)
  then show ?case by simp
next
  case (add xs a ys b)
  define q :: real where "q = 1 - 1 / 2 ^ 53"
  define n1 where "n1 = length xs"
  define n2 where "n2 = length ys"
  have q: "0 \<le> q" "q \<le> 1" by (simp_all add: q_def)
  have x: "xs \<noteq> []" "real n1 * c * q ^ (n1 - 1) \<le> a"
    using add.IH(1) add.prems by (auto simp: q_def n1_def)
  have y: "ys \<noteq> []" "real n2 * c * q ^ (n2 - 1) \<le> b"
    using add.IH(2) add.prems by (auto simp: q_def n2_def)
  have n: "1 \<le> n1" "1 \<le> n2" using x(1) y(1) by (simp_all add: n1_def n2_def Suc_le_eq)
  have p1: "q ^ (n1 + n2 - 2) \<le> q ^ (n1 - 1)" using q n by (intro power_decreasing) auto
  have p2: "q ^ (n1 + n2 - 2) \<le> q ^ (n2 - 1)" using q n by (intro power_decreasing) auto
  have c1: "real n1 * c * q ^ (n1 + n2 - 2) \<le> a"
    using mult_left_mono [OF p1, of "real n1 * c"] add.prems(1) x(2) by simp
  have c2: "real n2 * c * q ^ (n1 + n2 - 2) \<le> b"
    using mult_left_mono [OF p2, of "real n2 * c"] add.prems(1) y(2) by simp
  have s: "real (n1 + n2) * c * q ^ (n1 + n2 - 2) \<le> a + b"
    using c1 c2 by (simp add: algebra_simps)
  have s0: "0 \<le> real (n1 + n2) * c * q ^ (n1 + n2 - 2)" using q add.prems(1) by simp
  have "real (n1 + n2) * c * q ^ (n1 + n2 - 2) * q \<le> (a + b) * q"
    using s q by (intro mult_right_mono)
  also have "\<dots> \<le> rnd (a + b)" using rnd_ge [of "a + b"] s s0 by (simp add: q_def)
  finally have "real (n1 + n2) * c * (q ^ (n1 + n2 - 2) * q) \<le> rnd (a + b)" by (simp add: mult.assoc)
  moreover have "q ^ (n1 + n2 - 2) * q = q ^ (n1 + n2 - 1)"
  proof -
    have "Suc (n1 + n2 - 2) = n1 + n2 - 1" using n by arith
    then show ?thesis by (metis power_Suc2)
  qed
  ultimately show ?case using x(1) by (simp add: q_def n1_def n2_def)
next
  case (perm xs a ys)
  have "set ys = set xs" "length ys = length xs"
    using perm.hyps(2) by (auto dest: mset_eq_setD mset_eq_length)
  then show ?case using perm.IH perm.prems by auto
qed

lemma np_mean_f64_ge:
  assumes "np_mean_f64 ms v" and "ms \<noteq> []" and "0 \<le> c" and "\<forall>x\<in>set ms. c \<le> x"
  shows "\<exists>mu. v = Fin mu \<and> c - c * real (length ms) / 2 ^ 53 \<le> mu"
proof -
  define q :: real where "q = 1 - 1 / 2 ^ 53"
  define n where "n = length ms"
  obtain S where S: "f64_sum ms S" "v = Fin (rnd (S / real n))"
    using assms(1,2) by (auto simp: np_mean_f64_def n_def)
  have q: "0 \<le> q" by (simp add: q_def)
  have n: "0 < real n" using assms(2) by (simp add: n_def)
  have "real n * c * q ^ (n - 1) \<le> S"
    using f64_sum_ge [OF S(1) assms(3,4)] by (simp add: q_def n_def)
  then have "real n * (c * q ^ (n - 1)) / real n \<le> S / real n"
    using n by (intro divide_right_mono) (simp_all add: mult.assoc)
  then have m1: "c * q ^ (n - 1) \<le> S / real n" using n by simp
  have m0: "0 \<le> c * q ^ (n - 1)" using assms(3) q by simp
  have "c * q ^ (n - 1) * q \<le> S / real n * q" using m1 q by (intro mult_right_mono)
  also have "\<dots> \<le> rnd (S / real n)"
    using rnd_ge [of "S / real n"] m0 m1 by (simp add: q_def)
  finally have m2: "c * (q ^ (n - 1) * q) \<le> rnd (S / real n)" by (simp add: mult.assoc)
  have "Suc (n - 1) = n" using assms(2) by (simp add: n_def)
  then have "q ^ (n - 1) * q = q ^ n" by (metis power_Suc2)
  then have m3: "c * q ^ n \<le> rnd (S / real n)" using m2 by simp
  have "1 + real n * (- (1 / 2 ^ 53)) \<le> (1 + - (1 / 2 ^ 53)) ^ n"
    by (rule Bernoulli_inequality) simp
  then have "1 - real n / 2 ^ 53 \<le> q ^ n" by (simp add: q_def)
  then have "c * (1 - real n / 2 ^ 53) \<le> c * q ^ n" using assms(3) by (intro mult_left_mono)
  then have "c - c * real n / 2 ^ 53 \<le> rnd (S / real n)"
    using m3 by (simp add: algebra_simps)
  then show ?thesis using S(2) by (simp add: n_def)
qed

text \<open>
  Claim C9, amended. For a list of at most \<open>2\<^sup>3\<^sup>2\<close> magnitudes that is not empty and whose
  members are all at least \<open>Mc\<close> and at most 16, with \<open>0 \<le> Mc\<close>, and for every order in which
  \<^verbatim>\<open>np.mean\<close> may add them: the denominator that \<^verbatim>\<open>getB\<close> computes in binary64
  is a finite number, at least 0.04999 and so positive; \<^verbatim>\<open>getB\<close> divides by a number
  that is not zero and returns a positive b-value; the square root that
  \<^verbatim>\<open>getB_err\<close> divides by is positive, and it returns a finite number.
\<close>

theorem denominator_f64_positive:
  assumes "ms \<noteq> []" and "\<forall>x\<in>set ms. Mc \<le> x \<and> x \<le> 16" and "0 \<le> Mc"
    and "length ms \<le> 2 ^ 32" and "SetStats_f64 ms Mc self"
  shows "\<exists>d b. denominator_f64 self = Fin d \<and> 0.04999 \<le> d \<and> 0 < d \<and>
           getB_f64 self = Fin b \<and> b = rnd (math_log10_e / d) \<and> 0 < b \<and>
           0 < rnd (sqrt (real (Ntot self))) \<and>
           getB_err_f64 self = Fin (rnd (b / rnd (sqrt (real (Ntot self)))))"
proof -
  define n where "n = length ms"
  define h :: real where "h = 3602879701896397 / 2 ^ 56"
  define t where "t = rnd (Mc - h)"
  have self: "mc self = Mc" "Ntot self = n" "np_mean_f64 ms (magmu self)"
    using assms(5) by (simp_all add: SetStats_f64_def n_def)
  have ge: "\<forall>x\<in>set ms. Mc \<le> x" using assms(2) by blast
  have "hd ms \<in> set ms" using assms(1) by simp
  then have Mc16: "Mc \<le> 16" using assms(2) by fastforce
  obtain mu where mu: "magmu self = Fin mu" "Mc - Mc * real n / 2 ^ 53 \<le> mu"
    using np_mean_f64_ge [OF self(3) assms(1,3) ge] by (auto simp: n_def)
  have n1: "1 \<le> real n" using assms(1) by (cases ms) (simp_all add: n_def)
  have n2: "real n \<le> 2 ^ 32"
  proof -
    have "real n \<le> real ((2::nat) ^ 32)" using assms(4) unfolding n_def by (rule of_nat_mono)
    then show ?thesis by simp
  qed
  have P: "Mc * real n \<le> 16 * 2 ^ 32"
    using assms(3) Mc16 n1 n2 by (intro mult_mono) simp_all
  have "\<bar>Mc - h\<bar> \<le> Mc + h" using assms(3) by (simp add: h_def abs_if)
  then have t_le: "t \<le> Mc - h + (Mc + h) / 2 ^ 53"
    using rnd_le_abs [of "Mc - h"] unfolding t_def
    by (smt (verit) divide_right_mono zero_le_numeral zero_le_power)
  define dr where "dr = mu - t"
  have dr: "h - h / 2 ^ 53 - Mc / 2 ^ 53 - 16 * 2 ^ 32 / 2 ^ 53 \<le> dr"
    using mu(2) t_le P unfolding dr_def by (simp add: field_simps)
  have dr0: "0.049992 \<le> dr" using dr Mc16 by (simp add: h_def)
  define d where "d = rnd dr"
  have "dr * (1 - 1 / 2 ^ 53) \<le> d" using rnd_ge [of dr] dr0 by (simp add: d_def)
  then have d1: "0.04999 \<le> d" using dr0 by simp
  have d0: "0 < d" using d1 by simp
  have hb: "rnd (rnd 0.5 * rnd 0.1) = h" unfolding h_def by (rule half_bin)
  have den: "denominator_f64 self = Fin d"
    unfolding denominator_f64_def hb
    by (simp add: f64_sub_def mu(1) self(1) t_def dr_def d_def)
  define b where "b = rnd (math_log10_e / d)"
  have "0 < log 10 (rnd (exp 1))"
    using rnd_pos [of "exp 1"] rnd_ge [of "exp 1"] exp_ge_add_one_self [of 1]
    by simp
  then have L: "0 < math_log10_e" unfolding math_log10_e_def by (rule rnd_pos)
  have b0: "0 < b" unfolding b_def using L d0 by (intro rnd_pos divide_pos_pos)
  have gb: "getB_f64 self = Fin b"
    using d0 by (simp add: getB_f64_def f64_div_def den b_def)
  have "0 < sqrt (real n)" using n1 by simp
  then have s0: "0 < rnd (sqrt (real n))" by (rule rnd_pos)
  have ge: "getB_err_f64 self = Fin (rnd (b / rnd (sqrt (real n))))"
    using s0 by (simp add: getB_err_f64_def f64_div_def gb self(2))
  show ?thesis using den d1 d0 gb b_def b0 s0 ge self(2) by auto
qed

lemma f64_sum_nonempty: "f64_sum xs S \<Longrightarrow> xs \<noteq> []"
  by (induction rule: f64_sum.induct) auto

lemma f64_sum_singleton: "f64_sum xs S \<Longrightarrow> length xs = 1 \<Longrightarrow> S = hd xs"
proof (induction rule: f64_sum.induct)
  case (one x)
  show ?case by simp
next
  case (add xs a ys b)
  have "xs \<noteq> []" "ys \<noteq> []" using add.hyps by (auto dest: f64_sum_nonempty)
  then have "2 \<le> length (xs @ ys)" by (cases xs; cases ys) simp_all
  then show ?case using add.prems by simp
next
  case (perm xs a ys)
  have l: "length xs = 1" using perm.hyps(2) perm.prems by (metis mset_eq_length)
  then obtain x where x: "xs = [x]" by (cases xs) auto
  then have "ys = [x]" using perm.hyps(2) by simp
  then show ?case using perm.IH l x by simp
qed

lemma np_mean_f64_single: "np_mean_f64 [x] v \<longleftrightarrow> v = Fin (rnd x)"
proof
  assume "np_mean_f64 [x] v"
  then obtain S where "f64_sum [x] S" "v = Fin (rnd (S / 1))"
    by (auto simp: np_mean_f64_def)
  then show "v = Fin (rnd x)" using f64_sum_singleton [of "[x]" S] by simp
next
  assume "v = Fin (rnd x)"
  then show "np_mean_f64 [x] v"
    using f64_sum.one [of x] by (auto simp: np_mean_f64_def)
qed

lemma rnd_rnd_2_1: "rnd (rnd 2.1) = rnd 2.1"
  unfolding rnd_2_1 using rnd_eval_pos [of 1 "4728779608739021 / 2 ^ 51"] by (simp add: rint_def)

text \<open>
  Claim C9, as stated, fails. For the one magnitude 2.1 and the completeness magnitude 2.1,
  \<^verbatim>\<open>SetStats\<close> builds one object, with the mean 2.1, and the denominator that
  \<^verbatim>\<open>getB\<close> computes is \<open>56294995342131 / 2\<^sup>5\<^sup>0\<close>, printed
  0.04999999999999982: less than 0.05. The subtraction \<^verbatim>\<open>2.1 - 0.05\<close> rounds up to
  2.0500000000000003.
\<close>

theorem denominator_below_half_bin:
  "Collect (SetStats_f64 [rnd 2.1] (rnd 2.1)) =
     {\<lparr>mags = [rnd 2.1], mc = rnd 2.1, Ntot = 1, magmu = Fin (rnd 2.1)\<rparr>} \<and>
   denominator_f64 \<lparr>mags = [rnd 2.1], mc = rnd 2.1, Ntot = 1, magmu = Fin (rnd 2.1)\<rparr> =
     Fin (56294995342131 / 2 ^ 50) \<and>
   (56294995342131 / 2 ^ 50 :: real) < 0.05"
proof -
  have a: "Collect (SetStats_f64 [rnd 2.1] (rnd 2.1)) =
     {\<lparr>mags = [rnd 2.1], mc = rnd 2.1, Ntot = 1, magmu = Fin (rnd 2.1)\<rparr>}"
    by (auto simp: SetStats_f64_def np_mean_f64_single rnd_rnd_2_1)
  have "denominator_f64 \<lparr>mags = [rnd 2.1], mc = rnd 2.1, Ntot = 1, magmu = Fin (rnd 2.1)\<rparr> =
      Fin (rnd (rnd 2.1 - rnd (rnd 2.1 - rnd (rnd 0.5 * rnd 0.1))))"
    by (simp add: denominator_f64_def f64_sub_def)
  also have "\<dots> = Fin (56294995342131 / 2 ^ 50)"
    unfolding half_bin rnd_2_1 sub_2_1 den_2_1 ..
  finally have b: "denominator_f64 \<lparr>mags = [rnd 2.1], mc = rnd 2.1, Ntot = 1, magmu = Fin (rnd 2.1)\<rparr> =
      Fin (56294995342131 / 2 ^ 50)" .
  have c: "(56294995342131 / 2 ^ 50 :: real) < 0.05" by simp
  show ?thesis using a b c by blast
qed

lemma rnd_2_5: "rnd 2.5 = 2.5"
  using rnd_eval_pos [of 1 "2.5"] by (simp add: rint_def)

theorem denominator_f64_positive_witness:
  "SetStats_f64 [rnd 2.1, rnd 2.5] (rnd 2.1)
     \<lparr>mags = [rnd 2.1, rnd 2.5], mc = rnd 2.1, Ntot = 2,
      magmu = Fin (rnd (rnd (rnd 2.1 + rnd 2.5) / 2))\<rparr> \<and>
   (\<exists>d b. denominator_f64 \<lparr>mags = [rnd 2.1, rnd 2.5], mc = rnd 2.1, Ntot = 2,
                magmu = Fin (rnd (rnd (rnd 2.1 + rnd 2.5) / 2))\<rparr> = Fin d \<and>
          0.04999 \<le> d \<and>
          getB_f64 \<lparr>mags = [rnd 2.1, rnd 2.5], mc = rnd 2.1, Ntot = 2,
                magmu = Fin (rnd (rnd (rnd 2.1 + rnd 2.5) / 2))\<rparr> = Fin b \<and> 0 < b \<and>
          getB_err_f64 \<lparr>mags = [rnd 2.1, rnd 2.5], mc = rnd 2.1, Ntot = 2,
                magmu = Fin (rnd (rnd (rnd 2.1 + rnd 2.5) / 2))\<rparr> = Fin (rnd (b / rnd (sqrt 2))))"
proof -
  let ?self = "\<lparr>mags = [rnd 2.1, rnd 2.5], mc = rnd 2.1, Ntot = 2,
      magmu = Fin (rnd (rnd (rnd 2.1 + rnd 2.5) / 2))\<rparr>"
  have "f64_sum ([rnd 2.1] @ [rnd 2.5]) (rnd (rnd 2.1 + rnd 2.5))"
    by (intro f64_sum.add f64_sum.one)
  then have s: "SetStats_f64 [rnd 2.1, rnd 2.5] (rnd 2.1) ?self"
    by (auto simp: SetStats_f64_def np_mean_f64_def)
  have h: "[rnd 2.1, rnd 2.5] \<noteq> []" "\<forall>x\<in>set [rnd 2.1, rnd 2.5]. rnd 2.1 \<le> x \<and> x \<le> 16"
      "0 \<le> rnd 2.1" "length [rnd 2.1, rnd 2.5] \<le> 2 ^ 32"
    unfolding rnd_2_1 rnd_2_5 by simp_all
  show ?thesis
    using s denominator_f64_positive [OF h s] by auto
qed

text \<open>
  Claim C2, as stated, fails: a set with an earthquake of magnitude 1.7 only has no
  qualifying earthquake for the completeness magnitude 1.8, and the loop raises nothing: it
  stores NaN as the b-value and as its error.
\<close>

theorem empty_set_counterexample:
  "events_list (events_stats
       [\<lparr>DTtime = 5, depth = 1, mag = 1.7, latitude = 19, longitude = -155, ex_set = 1\<rparr>]) 1 1.8 = [] \<and>
   bvals_df [\<lparr>DTtime = 5, depth = 1, mag = 1.7, latitude = 19, longitude = -155, ex_set = 1\<rparr>] (1, 1.8)
     = Some NaN \<and>
   berrs_df [\<lparr>DTtime = 5, depth = 1, mag = 1.7, latitude = 19, longitude = -155, ex_set = 1\<rparr>] (1, 1.8)
     = Some NaN"
  by (simp add: bvals_df_cell berrs_df_cell events_list_def events_stats_def mag_min_def
      getB_def getB_err_def SetStats_init_def np_mean_def)

text \<open>
  Claim C2, amended. For a set that has earthquakes, none of them of magnitude at least the
  completeness magnitude, the loop raises no error: the mean of no magnitudes is NaN, and the
  cells of \<^verbatim>\<open>bvals_df\<close> and of \<^verbatim>\<open>berrs_df\<close> both hold NaN.
\<close>

theorem empty_set_nan:
  assumes "m \<in> set mag_min" and "s \<noteq> 0" and "\<exists>e\<in>set events. ex_set e = s"
    and "filter (\<lambda>e. ex_set e = s \<and> mag e \<ge> m) events = []"
  shows "bvals_df events (s, m) = Some NaN \<and> berrs_df events (s, m) = Some NaN"
proof -
  have el: "events_list (events_stats events) s m = []"
    using assms(2,4) by (simp add: events_list_events)
  have idx: "s \<in> snd ` set (events_stats events)"
    using assms(2,3) by (force simp: events_stats_def)
  show ?thesis
    using idx assms(1)
    by (simp add: bvals_df_cell berrs_df_cell el getB_def getB_err_def SetStats_init_def np_mean_def)
qed

theorem empty_set_nan_witness:
  "bvals_df [\<lparr>DTtime = 5, depth = 1, mag = 2.2, latitude = 19, longitude = -155, ex_set = 7\<rparr>] (7, 2.3)
     = Some NaN \<and>
   berrs_df [\<lparr>DTtime = 5, depth = 1, mag = 2.2, latitude = 19, longitude = -155, ex_set = 7\<rparr>] (7, 2.3)
     = Some NaN"
  using empty_set_nan [of "2.3" 7
      "[\<lparr>DTtime = 5, depth = 1, mag = 2.2, latitude = 19, longitude = -155, ex_set = 7\<rparr>]"]
  by (simp add: mag_min_def)

lemma events_stats_filter:
  "events_stats (filter (\<lambda>e. ex_set e \<noteq> 0) events) = events_stats events"
  by (induction events) (auto simp: events_stats_def)

text \<open>
  Claim C10. The tables of b-values and of their errors have no cell for set 0, set 0 is
  not among the sets the loop runs over, and both tables are those computed from the
  earthquakes outside set 0 alone.
\<close>

theorem no_estimate_for_set_0:
  "bvals_df events (0, m) = None \<and> berrs_df events (0, m) = None \<and>
   0 \<notin> set (unique (map snd (events_stats events))) \<and>
   bvals_df events = bvals_df (filter (\<lambda>e. ex_set e \<noteq> 0) events) \<and>
   berrs_df events = berrs_df (filter (\<lambda>e. ex_set e \<noteq> 0) events)"
proof -
  have z: "0 \<notin> snd ` set (events_stats events)"
    by (auto simp: events_stats_def)
  have "bvals_df events (0, m) = None" "berrs_df events (0, m) = None"
    using z by (simp_all add: bvals_df_cell berrs_df_cell)
  moreover have "0 \<notin> set (unique (map snd (events_stats events)))"
    using z by (simp add: set_unique)
  moreover have "bvals_df events = bvals_df (filter (\<lambda>e. ex_set e \<noteq> 0) events)"
    by (simp add: bvals_df_def events_stats_filter)
  moreover have "berrs_df events = berrs_df (filter (\<lambda>e. ex_set e \<noteq> 0) events)"
    by (simp add: berrs_df_def events_stats_filter)
  ultimately show ?thesis by blast
qed

text \<open>
  The labels written beside the index are the numbers 1 to 50; when the loop has run over
  a set, they stand beside the sets of the loop, none of which is 0.
\<close>

lemma set_labels_Inr:
  assumes "set_labels events = Inr ls"
  shows "map snd ls = map int [1..<51]" and "0 \<notin> snd ` set ls"
    and "unique (map snd (events_stats events)) \<noteq> [] \<Longrightarrow>
         map fst ls = unique (map snd (events_stats events)) \<and> 0 \<notin> fst ` set ls"
proof -
  let ?idx = "unique (map snd (events_stats events))"
  have ls: "ls = zip (if ?idx = [] then map int [0..<50] else ?idx) (map int [1..<51])"
    and len: "?idx \<noteq> [] \<Longrightarrow> length ?idx = 50"
    using assms by (auto simp: set_labels_def Let_def split: if_splits)
  have l: "length (if ?idx = [] then map int [0..<50] else ?idx) = length (map int [1..<51])"
    using len by simp
  show b: "map snd ls = map int [1..<51]" unfolding ls using l by (rule map_snd_zip)
  have "0 \<notin> set (map int [1..<51])" by auto
  then show "0 \<notin> snd ` set ls" using b by (metis set_map)
  show "map fst ls = ?idx \<and> 0 \<notin> fst ` set ls" if ne: "?idx \<noteq> []"
  proof -
    have a: "map fst ls = ?idx" using map_fst_zip [OF l] ne by (simp add: ls)
    have "0 \<notin> set ?idx" by (auto simp: set_unique events_stats_def)
    then show ?thesis using a by (metis set_map)
  qed
qed

section \<open>The set of an earthquake\<close>

lemma assign_loop_eq:
  "assign_loop ps i events =
     (map (\<lambda>e. e\<lparr>ex_set := loop_id ps i (ex_set e) (DTtime e)\<rparr>) events, i + int (length ps))"
proof (induction ps i events rule: assign_loop.induct)
  case (1 i events)
  show ?case by (simp add: map_idI)
next
  case (2 start stop ps i events)
  have "assign_loop ((start, stop) # ps) i events =
          assign_loop ps (i + 1) (set_mask (\<lambda>e. DTtime e \<ge> start \<and> DTtime e < stop) i events)"
    by simp
  also have "\<dots> = (map (\<lambda>e. e\<lparr>ex_set := loop_id ps (i + 1) (ex_set e) (DTtime e)\<rparr>)
                      (set_mask (\<lambda>e. DTtime e \<ge> start \<and> DTtime e < stop) i events),
                    i + 1 + int (length ps))"
    by (rule 2)
  also have "\<dots> = (map (\<lambda>e. e\<lparr>ex_set := loop_id ((start, stop) # ps) i (ex_set e) (DTtime e)\<rparr>) events,
                    i + int (length ((start, stop) # ps)))"
    by (auto simp: set_mask_def)
  finally show ?case .
qed

lemma loop_id_sorted:
  "sorted (b # bs) \<Longrightarrow>
   loop_id (zip (butlast (b # bs)) bs) i cur t =
     (if t < b \<or> last (b # bs) \<le> t then cur
      else i + int (length (filter (\<lambda>x. x \<le> t) bs)))"
proof (induction bs arbitrary: b i cur)
  case Nil
  show ?case by simp
next
  case (Cons b1 rest)
  have s: "sorted (b1 # rest)" and le: "b \<le> b1" using Cons.prems by auto
  define L where "L = last (b1 # rest)"
  have l: "b1 \<le> L" using s unfolding L_def by (cases rest) auto
  have lastL: "last (b # b1 # rest) = L" by (simp add: L_def)
  have step: "loop_id (zip (butlast (b # b1 # rest)) (b1 # rest)) i cur t =
      loop_id (zip (butlast (b1 # rest)) rest) (i + 1) (if b \<le> t \<and> t < b1 then i else cur) t"
    by simp
  have IH: "loop_id (zip (butlast (b1 # rest)) rest) (i + 1) c t =
      (if t < b1 \<or> L \<le> t then c else i + 1 + int (length (filter (\<lambda>x. x \<le> t) rest)))" for c
    using Cons.IH [OF s] by (simp add: L_def)
  have cnt: "t < b1 \<Longrightarrow> filter (\<lambda>x. x \<le> t) rest = []"
    using s by (auto simp: filter_empty_conv)
  show ?case unfolding step IH lastL using le l cnt by auto
qed

lemma sorted_le_last:
  fixes xs :: "int list"
  shows "sorted xs \<Longrightarrow> x \<in> set xs \<Longrightarrow> x \<le> last xs"
  by (induction xs) auto

lemma assign_sets_eq:
  assumes "sorted explode" and "14 \<le> length explode"
  shows "assign_sets explode events =
     Inr (map (\<lambda>e. e\<lparr>ex_set :=
                 (if DTtime e = last explode then 0
                  else int (length (filter (\<lambda>b. b \<le> DTtime e) (drop 12 explode))))\<rparr>) events)"
proof -
  obtain b bs where bbs: "drop 12 explode = b # bs"
    using assms(2) by (cases "drop 12 explode") auto
  have "drop 13 explode = drop 1 (drop 12 explode)" by simp
  then have en: "end_times explode = bs" using bbs by (simp add: end_times_def)
  have "length (end_times explode) = length explode - 13" by (simp add: end_times_def)
  then have bs_ne: "bs \<noteq> []" using assms(2) en by auto
  have st: "start_times explode = butlast (b # bs)"
    by (simp add: start_times_def bbs)
  have "sorted (drop 12 explode)" using assms(1) by (rule sorted_wrt_drop)
  then have srt: "sorted (b # bs)" using bbs by simp
  have "last (drop 12 explode) = last explode" using assms(2) by simp
  then have lst: "last (b # bs) = last explode" using bbs by simp
  have lst': "last bs = last explode" using lst bs_ne by simp
  have all: "filter (\<lambda>x. x \<le> t) (b # bs) = b # bs" if "last explode < t" for t
  proof -
    have "\<forall>x\<in>set (b # bs). x \<le> t"
      using sorted_le_last [OF srt] that lst by fastforce
    then show ?thesis by (simp only: filter_True)
  qed
  have low: "filter (\<lambda>x. x \<le> t) (b # bs) = []" if "t < b" for t
    using srt that by (auto simp: filter_empty_conv)
  have loop: "loop_id (zip (butlast (b # bs)) bs) 1 0 t =
      (if t < b \<or> last explode \<le> t then 0 else 1 + int (length (filter (\<lambda>x. x \<le> t) bs)))" for t
    using loop_id_sorted [OF srt, of 1 0 t] lst by simp
  have cell: "(if last explode < t then 1 + int (length (zip (butlast (b # bs)) bs))
               else loop_id (zip (butlast (b # bs)) bs) 1 0 t) =
              (if t = last explode then 0 else int (length (filter (\<lambda>x. x \<le> t) (b # bs))))" for t
  proof (cases "last explode < t")
    case True
    then show ?thesis using all [OF True] by simp
  next
    case False
    show ?thesis
    proof (cases "t < b")
      case True
      have "b \<le> last explode" using sorted_le_last [OF srt, of b] lst by simp
      then show ?thesis using True False low [OF True] loop by simp
    next
      case nb: False
      then show ?thesis using False loop by auto
    qed
  qed
  have "assign_sets explode events =
      Inr (map (\<lambda>e. e\<lparr>ex_set := (if last explode < DTtime e then 1 + int (length (zip (butlast (b # bs)) bs))
               else loop_id (zip (butlast (b # bs)) bs) 1 0 (DTtime e))\<rparr>) events)"
    unfolding assign_sets_def en st assign_loop_eq Let_def
    using bs_ne by (auto simp add: set_mask_def lst' simp del: butlast.simps)
  then show ?thesis unfolding cell bbs .
qed

lemma assign_sets_IndexError:
  "length explode < 14 \<Longrightarrow> assign_sets explode events = Inl IndexError"
  by (simp add: assign_sets_def end_times_def split_def)

lemma group_earthquakes_eq:
  assumes "14 \<le> length explode_times"
  shows "group_earthquakes explode_times events =
     Inr (map (\<lambda>e. e\<lparr>ex_set :=
                 (if DTtime e = last (sort explode_times) then 0
                  else int (length (filter (\<lambda>b. b \<le> DTtime e) (drop 12 (sort explode_times)))))\<rparr>)
            (sort_key DTtime events))"
  unfolding group_earthquakes_def using assms by (intro assign_sets_eq) simp_all

text \<open>
  The set of an earthquake, interval by interval, for sorted explosion times: 0 before the
  first start time, \<open>j + 1\<close> within the \<open>j\<close>-th pair (counted from 0) of start and end
  times, the last number strictly after the last explosion, and 0 at the time of the last
  explosion itself.
\<close>

lemma sorted_hd_le:
  fixes xs :: "int list"
  shows "sorted xs \<Longrightarrow> x \<in> set xs \<Longrightarrow> hd xs \<le> x"
  by (cases xs) auto

lemma count_le_sorted:
  fixes bs :: "int list"
  assumes "sorted bs" and "Suc j < length bs" and "bs ! j \<le> t" and "t < bs ! Suc j"
  shows "filter (\<lambda>b. b \<le> t) bs = take (Suc j) bs"
proof -
  have lo: "\<forall>x\<in>set (take (Suc j) bs). x \<le> t"
  proof
    fix x assume "x \<in> set (take (Suc j) bs)"
    then obtain i where i: "i < Suc j" "x = bs ! i"
      using assms(2) by (auto simp: in_set_conv_nth)
    then have "bs ! i \<le> bs ! j" using assms(1,2) by (intro sorted_nth_mono) auto
    then show "x \<le> t" using i(2) assms(3) by simp
  qed
  have hi: "\<forall>x\<in>set (drop (Suc j) bs). \<not> x \<le> t"
  proof
    fix x assume "x \<in> set (drop (Suc j) bs)"
    moreover have "sorted (drop (Suc j) bs)" using assms(1) by (rule sorted_wrt_drop)
    ultimately have "hd (drop (Suc j) bs) \<le> x" by (intro sorted_hd_le)
    then have "bs ! Suc j \<le> x" using assms(2) by (simp add: hd_drop_conv_nth)
    then show "\<not> x \<le> t" using assms(4) by simp
  qed
  have "filter (\<lambda>b. b \<le> t) bs =
        filter (\<lambda>b. b \<le> t) (take (Suc j) bs) @ filter (\<lambda>b. b \<le> t) (drop (Suc j) bs)"
    by (metis append_take_drop_id filter_append)
  also have "filter (\<lambda>b. b \<le> t) (take (Suc j) bs) = take (Suc j) bs"
    using lo by (simp only: filter_True)
  also have "filter (\<lambda>b. b \<le> t) (drop (Suc j) bs) = []"
    using hi by (simp only: filter_False)
  finally show ?thesis by simp
qed

lemma assign_sets_intervals:
  assumes "sorted explode" and "14 \<le> length explode"
    and "assign_sets explode events = Inr events'" and "k < length events"
  shows "length events' = length events"
    and "DTtime (events' ! k) = DTtime (events ! k)"
    and "DTtime (events ! k) < explode ! 12 \<Longrightarrow> ex_set (events' ! k) = 0"
    and "j < length (end_times explode) \<Longrightarrow> start_times explode ! j \<le> DTtime (events ! k) \<Longrightarrow>
         DTtime (events ! k) < end_times explode ! j \<Longrightarrow> ex_set (events' ! k) = int j + 1"
    and "last explode < DTtime (events ! k) \<Longrightarrow>
         ex_set (events' ! k) = int (length (end_times explode)) + 1"
    and "DTtime (events ! k) = last explode \<Longrightarrow> ex_set (events' ! k) = 0"
proof -
  let ?t = "DTtime (events ! k)"
  let ?bs = "drop 12 explode"
  have ev: "events' = map (\<lambda>e. e\<lparr>ex_set :=
                 (if DTtime e = last explode then 0
                  else int (length (filter (\<lambda>b. b \<le> DTtime e) ?bs)))\<rparr>) events"
    using assign_sets_eq [OF assms(1,2), of events] assms(3) by simp
  show "length events' = length events" by (simp add: ev)
  show "DTtime (events' ! k) = ?t" using assms(4) by (simp add: ev)
  have cell: "ex_set (events' ! k) =
      (if ?t = last explode then 0 else int (length (filter (\<lambda>b. b \<le> ?t) ?bs)))"
    using assms(4) by (simp add: ev)
  have srt: "sorted ?bs" using assms(1) by (rule sorted_wrt_drop)
  have lst: "last ?bs = last explode" using assms(2) by simp
  have ne: "?bs \<noteq> []" using assms(2) by simp
  have le_last: "x \<in> set ?bs \<Longrightarrow> x \<le> last explode" for x
    using sorted_le_last [OF srt] lst by simp
  show "ex_set (events' ! k) = 0" if "?t < explode ! 12"
  proof -
    have h: "hd ?bs = explode ! 12" using assms(2) by (simp add: hd_drop_conv_nth)
    have "\<forall>x\<in>set ?bs. \<not> x \<le> ?t"
    proof
      fix x assume "x \<in> set ?bs"
      then have "hd ?bs \<le> x" using srt by (intro sorted_hd_le)
      then show "\<not> x \<le> ?t" using that h by simp
    qed
    then have "filter (\<lambda>b. b \<le> ?t) ?bs = []" by (simp only: filter_False)
    then show ?thesis by (simp add: cell)
  qed
  show "ex_set (events' ! k) = int j + 1"
    if j: "j < length (end_times explode)" and a: "start_times explode ! j \<le> ?t"
      and b: "?t < end_times explode ! j"
  proof -
    have sj: "Suc j < length ?bs" using j by (simp add: end_times_def)
    have st: "start_times explode ! j = ?bs ! j"
      using sj by (simp add: start_times_def nth_butlast)
    have en: "end_times explode ! j = ?bs ! Suc j"
      using sj by (simp add: end_times_def)
    have f: "filter (\<lambda>b. b \<le> ?t) ?bs = take (Suc j) ?bs"
      using count_le_sorted [OF srt sj] a b st en by simp
    have "?bs ! Suc j \<in> set ?bs" using sj by (intro nth_mem)
    then have "?t \<noteq> last explode" using le_last b en by fastforce
    then show ?thesis using sj by (simp add: cell f)
  qed
  show "ex_set (events' ! k) = int (length (end_times explode)) + 1" if "last explode < ?t"
  proof -
    have "\<forall>x\<in>set ?bs. x \<le> ?t" using le_last that by fastforce
    then have "filter (\<lambda>b. b \<le> ?t) ?bs = ?bs" by (simp only: filter_True)
    then show ?thesis using that assms(2) by (simp add: cell end_times_def)
  qed
  show "ex_set (events' ! k) = 0" if "?t = last explode"
    using that by (simp add: cell)
qed

text \<open>
  Claim C1 does not hold of the code at the time of the last explosion. With fifteen
  explosions at the times 0 to 14, the pairs of start and end times are (12, 13) and (13, 14)
  and the last set has number 3. The earthquake at time 15 is in set 3; the earthquake at
  time 14, the time of the last explosion, stays in set 0: the last assignment compares with
  \<^verbatim>\<open>>\<close>.
\<close>

theorem last_explosion_time_in_set_0:
  "assign_sets [0, 1, 2, 3, 4, 5, 6, 7, 8, 9, 10, 11, 12, 13, 14]
     [\<lparr>DTtime = 14, depth = 1, mag = 5.3, latitude = 19, longitude = -155, ex_set = 0\<rparr>,
      \<lparr>DTtime = 15, depth = 1, mag = 2, latitude = 19, longitude = -155, ex_set = 0\<rparr>]
   = Inr [\<lparr>DTtime = 14, depth = 1, mag = 5.3, latitude = 19, longitude = -155, ex_set = 0\<rparr>,
          \<lparr>DTtime = 15, depth = 1, mag = 2, latitude = 19, longitude = -155, ex_set = 3\<rparr>]"
  by (simp add: assign_sets_def start_times_def end_times_def set_mask_def)

text \<open>
  Claim C5 does not hold of the code: the intervals leave out the time of the last
  explosion. From the tables as read (unsorted), the earthquakes at the times 11, 13, 14 and 15
  get the sets 0, 2, 0 and 3. Time 14 lies in no interval of the loop and not after the last
  end time, so its earthquake is left in set 0, with the earthquakes before the first start
  time.
\<close>

theorem gap_at_last_explosion_time:
  "map_sum id (map (\<lambda>e. (DTtime e, ex_set e)))
     (group_earthquakes [14, 1, 2, 3, 4, 5, 6, 7, 8, 9, 10, 11, 12, 13, 0]
       [\<lparr>DTtime = 15, depth = 1, mag = 2, latitude = 19, longitude = -155, ex_set = 0\<rparr>,
        \<lparr>DTtime = 11, depth = 1, mag = 2, latitude = 19, longitude = -155, ex_set = 0\<rparr>,
        \<lparr>DTtime = 14, depth = 1, mag = 2, latitude = 19, longitude = -155, ex_set = 0\<rparr>,
        \<lparr>DTtime = 13, depth = 1, mag = 2, latitude = 19, longitude = -155, ex_set = 0\<rparr>])
   = Inr [(11, 0), (13, 2), (14, 0), (15, 3)]"
  by (simp add: group_earthquakes_def assign_sets_def start_times_def end_times_def set_mask_def)

section \<open>Normalised counts\<close>

lemma column_Nil [simp]: "column [] s = []"
  by (simp add: column_def)

lemma column_Cons [simp]: "column (r # fr) s = snd r s # column fr s"
  by (simp add: column_def)

lemma column_append [simp]: "column (xs @ ys) s = column xs s @ column ys s"
  by (simp add: column_def)

lemma column_rev: "column (rev fr) s = rev (column fr s)"
  by (simp add: column_def rev_map)

lemma length_column [simp]: "length (column fr s) = length fr"
  by (simp add: column_def)

lemma map_fst_cumsum_from: "map fst (cumsum_from acc fr) = map fst fr"
  by (induction acc fr rule: cumsum_from.induct) auto

lemma column_cumsum_from_snoc:
  "column (cumsum_from acc (fr @ [x])) s =
     column (cumsum_from acc fr) s @ [acc s + sum_list (column fr s) + snd x s]"
proof (induction acc fr rule: cumsum_from.induct)
  case (1 acc)
  show ?case by (cases x) simp
next
  case (2 acc m row fr)
  show ?case by (simp add: 2 add.assoc)
qed

lemma column_rev_cumsum_rev:
  "rev (column (cumsum_from acc (rev fr)) s) =
     map (\<lambda>k. acc s + sum_list (drop k (column fr s))) [0..<length fr]"
proof (induction fr)
  case Nil
  show ?case by simp
next
  case (Cons x fr)
  have "rev (column (cumsum_from acc (rev (x # fr))) s) =
          (acc s + sum_list (column (rev fr) s) + snd x s) # rev (column (cumsum_from acc (rev fr)) s)"
    by (simp add: column_cumsum_from_snoc)
  also have "sum_list (column (rev fr) s) = sum_list (column fr s)"
    by (simp add: column_rev)
  finally show ?case
    by (simp add: Cons map_upt_Suc del: upt_Suc)
qed

lemma sorted_pivot_index: "sorted (pivot_index em)" "distinct (pivot_index em)"
  by (simp_all add: pivot_index_def)

lemma map_fst_quake_sum: "map fst (quake_sum events) = pivot_index (events_mags events)"
  by (simp add: quake_sum_def Let_def comp_def)

lemma sort_key_fst_rev:
  fixes ys :: "int frame"
  assumes "sorted (rev (map fst ys))" and "distinct (map fst ys)"
  shows "sort_key fst ys = rev ys"
proof (rule sort_key_inj_key_eq)
  show "mset ys = mset (rev ys)" by simp
  show "inj_on fst (set ys)" using assms(2) by (simp add: distinct_map)
  show "sorted (map fst (rev ys))" using assms(1) by (simp add: rev_map)
qed

lemma quake_cumsum_eq:
  "quake_cumsum events = rev (cumsum (rev (quake_sum events)))"
proof -
  have k: "map fst (cumsum (rev (quake_sum events))) = rev (pivot_index (events_mags events))"
    by (simp add: cumsum_def map_fst_cumsum_from rev_map [symmetric] map_fst_quake_sum)
  show ?thesis
    unfolding quake_cumsum_def
    by (rule sort_key_fst_rev) (simp_all add: k sorted_pivot_index)
qed

lemma column_quake_cumsum:
  "column (quake_cumsum events) s =
     map (\<lambda>k. sum_list (drop k (column (quake_sum events) s))) [0..<length (quake_sum events)]"
  using column_rev_cumsum_rev [of "\<lambda>s. 0" "quake_sum events" s]
  by (simp add: quake_cumsum_eq column_rev cumsum_def)

lemma map_fst_quake_cumsum: "map fst (quake_cumsum events) = pivot_index (events_mags events)"
proof -
  have "map fst (quake_cumsum events) = rev (map fst (cumsum (rev (quake_sum events))))"
    by (simp add: quake_cumsum_eq rev_map)
  then show ?thesis
    by (simp add: cumsum_def map_fst_cumsum_from rev_map [symmetric] map_fst_quake_sum)
qed

lemma column_quake_sum:
  "column (quake_sum events) s =
     map (\<lambda>m. pivot_count (events_mags events) m s) (pivot_index (events_mags events))"
  by (simp add: column_def quake_sum_def Let_def comp_def)

lemma pivot_count_nonneg: "0 \<le> pivot_count em m s"
  by (simp add: pivot_count_def)

lemma column_quake_sum_nonneg: "x \<in> set (column (quake_sum events) s) \<Longrightarrow> 0 \<le> x"
  by (auto simp: column_quake_sum pivot_count_nonneg)

lemma set_pivot_columns: "set (pivot_columns em) = ex_set ` set em"
  by (simp add: pivot_columns_def)

lemma column_has_event:
  assumes "s \<in> set (pivot_columns em)"
  shows "\<exists>m\<in>set (pivot_index em). 1 \<le> pivot_count em m s"
proof -
  obtain e where e: "e \<in> set em" "ex_set e = s"
    using assms by (auto simp: set_pivot_columns)
  have "filter (\<lambda>x. mag x = mag e \<and> ex_set x = s) em \<noteq> []"
    using e by (auto simp: filter_empty_conv)
  then have "1 \<le> pivot_count em (mag e) s"
    by (simp add: pivot_count_def Suc_le_eq)
  moreover have "mag e \<in> set (pivot_index em)"
    using e(1) by (simp add: pivot_index_def)
  ultimately show ?thesis by blast
qed

lemma column_max_column: "column_max fr s = Max (set (column fr s))"
  by (simp add: column_max_def column_def)

lemma column_frame_div:
  "column (frame_div fr d) s = map (\<lambda>v. np_div (Fin (of_int v)) (Fin (of_int (d s)))) (column fr s)"
  by (simp add: column_def frame_div_def comp_def split_def)

lemma map_fst_frame_div: "map fst (frame_div fr d) = map fst fr"
  by (simp add: frame_div_def comp_def split_def)

lemma column_max_pos:
  assumes "s \<in> set (pivot_columns (events_mags events))"
  shows "1 \<le> column_max (quake_sum events) s"
    and "x \<in> set (column (quake_sum events) s) \<Longrightarrow> x \<le> column_max (quake_sum events) s"
    and "column_max (quake_sum events) s \<in> set (column (quake_sum events) s)"
proof -
  let ?cs = "column (quake_sum events) s"
  obtain m where m: "m \<in> set (pivot_index (events_mags events))"
      "1 \<le> pivot_count (events_mags events) m s"
    using column_has_event [OF assms] by blast
  have mem: "pivot_count (events_mags events) m s \<in> set ?cs"
    using m(1) by (simp add: column_quake_sum)
  have ne: "set ?cs \<noteq> {}" using mem by auto
  have "pivot_count (events_mags events) m s \<le> Max (set ?cs)"
    using mem by simp
  then show "1 \<le> column_max (quake_sum events) s"
    using m(2) by (simp add: column_max_column)
  show "x \<in> set ?cs \<Longrightarrow> x \<le> column_max (quake_sum events) s"
    by (simp add: column_max_column)
  show "column_max (quake_sum events) s \<in> set ?cs"
    unfolding column_max_column using ne by (intro Max_in) simp_all
qed

text \<open>
  Claim C7. For a set that has a column in the pivot table, every cell of its column of
  \<^verbatim>\<open>quake_sum_div\<close> is a finite number between 0 and 1, a row whose count is the
  maximum of the column has the cell 1, and there is such a row.
\<close>

theorem normalized_counts_unit_interval:
  assumes "s \<in> set (pivot_columns (events_mags events))"
  shows "(\<forall>v\<in>set (column (quake_sum_div events) s). \<exists>x. v = Fin x \<and> 0 \<le> x \<and> x \<le> 1) \<and>
         (\<forall>k<length (quake_sum events).
            column (quake_sum events) s ! k = column_max (quake_sum events) s \<longrightarrow>
            column (quake_sum_div events) s ! k = Fin 1) \<and>
         Fin 1 \<in> set (column (quake_sum_div events) s)"
proof -
  let ?cs = "column (quake_sum events) s"
  define M where "M = column_max (quake_sum events) s"
  have M1: "1 \<le> M" and Mge: "\<And>x. x \<in> set ?cs \<Longrightarrow> x \<le> M" and Min: "M \<in> set ?cs"
    unfolding M_def using column_max_pos [OF assms] by blast+
  have M0: "real_of_int M \<noteq> 0" "0 < real_of_int M" using M1 by simp_all
  have col: "column (quake_sum_div events) s = map (\<lambda>v. Fin (real_of_int v / real_of_int M)) ?cs"
    using M0 by (simp add: quake_sum_div_def column_frame_div M_def)
  have a: "\<forall>v\<in>set (column (quake_sum_div events) s). \<exists>x. v = Fin x \<and> 0 \<le> x \<and> x \<le> 1"
  proof
    fix v assume "v \<in> set (column (quake_sum_div events) s)"
    then obtain c where c: "c \<in> set ?cs" "v = Fin (real_of_int c / real_of_int M)"
      unfolding col by auto
    have "0 \<le> c" "c \<le> M" using c(1) column_quake_sum_nonneg Mge by blast+
    then have "0 \<le> real_of_int c / real_of_int M" "real_of_int c / real_of_int M \<le> 1"
      using M0 by (simp_all add: divide_le_eq_1)
    then show "\<exists>x. v = Fin x \<and> 0 \<le> x \<and> x \<le> 1" using c(2) by blast
  qed
  have b: "\<forall>k<length (quake_sum events). ?cs ! k = column_max (quake_sum events) s \<longrightarrow>
            column (quake_sum_div events) s ! k = Fin 1"
    using M0 by (simp add: col M_def)
  have "Fin (real_of_int M / real_of_int M) \<in> set (column (quake_sum_div events) s)"
    unfolding col set_map using Min by (rule imageI)
  then have c: "Fin 1 \<in> set (column (quake_sum_div events) s)" using M0 by simp
  show ?thesis using a b c by blast
qed

lemma sum_list_drop_mono:
  fixes cs :: "int list"
  assumes "\<forall>x\<in>set cs. 0 \<le> x" and "i \<le> j"
  shows "sum_list (drop j cs) \<le> sum_list (drop i cs)"
proof -
  have "drop i cs = take (j - i) (drop i cs) @ drop j cs"
    using assms(2) by (metis append_take_drop_id drop_drop le_add_diff_inverse2)
  then have "sum_list (drop i cs) = sum_list (take (j - i) (drop i cs)) + sum_list (drop j cs)"
    by (metis sum_list_append)
  moreover have "0 \<le> sum_list (take (j - i) (drop i cs))"
    using assms(1) by (intro sum_list_nonneg) (meson in_set_dropD in_set_takeD)
  ultimately show ?thesis by simp
qed

theorem normalized_counts_unit_interval_witness:
  "2 \<in> set (pivot_columns (events_mags
       [\<lparr>DTtime = 5, depth = 1, mag = 2.14, latitude = 19, longitude = -155, ex_set = 2\<rparr>,
        \<lparr>DTtime = 6, depth = 1, mag = 2.1, latitude = 19, longitude = -155, ex_set = 2\<rparr>,
        \<lparr>DTtime = 7, depth = 1, mag = 3, latitude = 19, longitude = -155, ex_set = 2\<rparr>])) \<and>
   Fin 1 \<in> set (column (quake_sum_div
       [\<lparr>DTtime = 5, depth = 1, mag = 2.14, latitude = 19, longitude = -155, ex_set = 2\<rparr>,
        \<lparr>DTtime = 6, depth = 1, mag = 2.1, latitude = 19, longitude = -155, ex_set = 2\<rparr>,
        \<lparr>DTtime = 7, depth = 1, mag = 3, latitude = 19, longitude = -155, ex_set = 2\<rparr>]) 2)"
proof -
  have c: "2 \<in> set (pivot_columns (events_mags
       [\<lparr>DTtime = 5, depth = 1, mag = 2.14, latitude = 19, longitude = -155, ex_set = 2\<rparr>,
        \<lparr>DTtime = 6, depth = 1, mag = 2.1, latitude = 19, longitude = -155, ex_set = 2\<rparr>,
        \<lparr>DTtime = 7, depth = 1, mag = 3, latitude = 19, longitude = -155, ex_set = 2\<rparr>]))"
    by (simp add: pivot_columns_def events_mags_def)
  show ?thesis using c normalized_counts_unit_interval [OF c] by blast
qed

text \<open>
  Claim C8. The rows of \<^verbatim>\<open>quake_cumsum_norm\<close> are labelled by the magnitude bins
  in strictly ascending order. For a set that has a column, the cell of row \<open>k\<close> is the sum
  of the counts of the rows from \<open>k\<close> on, divided by the sum of all the counts of the set; the
  cell of the first row, the smallest bin, is 1, and the cells do not increase down the column.
\<close>

theorem cumulative_counts_nonincreasing:
  assumes "s \<in> set (pivot_columns (events_mags events))"
  shows "map fst (quake_cumsum_norm events) = pivot_index (events_mags events) \<and>
         sorted (pivot_index (events_mags events)) \<and> distinct (pivot_index (events_mags events)) \<and>
         (\<exists>rs. column (quake_cumsum_norm events) s = map Fin rs \<and>
               rs = map (\<lambda>k. real_of_int (sum_list (drop k (column (quake_sum events) s))) /
                               real_of_int (sum_list (column (quake_sum events) s)))
                        [0..<length (quake_sum events)] \<and>
               rs \<noteq> [] \<and> hd rs = 1 \<and>
               (\<forall>i j. i \<le> j \<and> j < length rs \<longrightarrow> rs ! j \<le> rs ! i))"
proof -
  let ?cs = "column (quake_sum events) s"
  let ?n = "length (quake_sum events)"
  define T where "T = sum_list ?cs"
  have nonneg: "\<forall>x\<in>set ?cs. 0 \<le> x" using column_quake_sum_nonneg by blast
  have Mpos: "1 \<le> column_max (quake_sum events) s" and Min: "column_max (quake_sum events) s \<in> set ?cs"
    using column_max_pos [OF assms] by blast+
  have "column_max (quake_sum events) s \<le> T"
    unfolding T_def using Min nonneg by (simp add: member_le_sum_list)
  then have T1: "1 \<le> T" using Mpos by simp
  have n0: "0 < ?n" using Min by (cases "quake_sum events") auto
  have ccol: "column (quake_cumsum events) s = map (\<lambda>k. sum_list (drop k ?cs)) [0..<?n]"
    by (rule column_quake_cumsum)
  have le_T: "sum_list (drop k ?cs) \<le> T" for k
    unfolding T_def using sum_list_drop_mono [OF nonneg, of 0 k] by simp
  have "Max (set (column (quake_cumsum events) s)) = T"
  proof (rule Max_eqI)
    show "finite (set (column (quake_cumsum events) s))" by simp
    show "y \<le> T" if "y \<in> set (column (quake_cumsum events) s)" for y
      using that le_T unfolding ccol by auto
    have "sum_list (drop 0 ?cs) \<in> set (column (quake_cumsum events) s)"
      unfolding ccol set_map using n0 by (intro imageI) simp
    then show "T \<in> set (column (quake_cumsum events) s)" by (simp add: T_def)
  qed
  then have mx: "column_max (quake_cumsum events) s = T" by (simp add: column_max_column)
  have T0: "real_of_int T \<noteq> 0" "0 < real_of_int T" using T1 by simp_all
  define rs where "rs = map (\<lambda>k. real_of_int (sum_list (drop k ?cs)) / real_of_int T) [0..<?n]"
  have col: "column (quake_cumsum_norm events) s = map Fin rs"
    using T0 by (simp add: quake_cumsum_norm_def column_frame_div mx ccol rs_def comp_def)
  have ne: "rs \<noteq> []" using n0 by (simp add: rs_def)
  have "hd rs = rs ! 0" using ne by (simp add: hd_conv_nth)
  also have "\<dots> = 1" using n0 T0 by (simp add: rs_def T_def)
  finally have h: "hd rs = 1" .
  have mono: "\<forall>i j. i \<le> j \<and> j < length rs \<longrightarrow> rs ! j \<le> rs ! i"
  proof (intro allI impI)
    fix i j assume ij: "i \<le> j \<and> j < length rs"
    then have "sum_list (drop j ?cs) \<le> sum_list (drop i ?cs)"
      using sum_list_drop_mono [OF nonneg] by blast
    then have "real_of_int (sum_list (drop j ?cs)) / real_of_int T \<le>
               real_of_int (sum_list (drop i ?cs)) / real_of_int T"
      using T0 by (simp add: divide_right_mono)
    then show "rs ! j \<le> rs ! i" using ij by (simp add: rs_def)
  qed
  have idx: "map fst (quake_cumsum_norm events) = pivot_index (events_mags events)"
    by (simp add: quake_cumsum_norm_def map_fst_frame_div map_fst_quake_cumsum)
  show ?thesis
    using idx sorted_pivot_index col ne h mono rs_def T_def by blast
qed

theorem cumulative_counts_nonincreasing_witness:
  "2 \<in> set (pivot_columns (events_mags
       [\<lparr>DTtime = 5, depth = 1, mag = 2.14, latitude = 19, longitude = -155, ex_set = 2\<rparr>,
        \<lparr>DTtime = 6, depth = 1, mag = 2.1, latitude = 19, longitude = -155, ex_set = 2\<rparr>,
        \<lparr>DTtime = 7, depth = 1, mag = 3, latitude = 19, longitude = -155, ex_set = 2\<rparr>])) \<and>
   (\<exists>rs. column (quake_cumsum_norm
       [\<lparr>DTtime = 5, depth = 1, mag = 2.14, latitude = 19, longitude = -155, ex_set = 2\<rparr>,
        \<lparr>DTtime = 6, depth = 1, mag = 2.1, latitude = 19, longitude = -155, ex_set = 2\<rparr>,
        \<lparr>DTtime = 7, depth = 1, mag = 3, latitude = 19, longitude = -155, ex_set = 2\<rparr>]) 2 = map Fin rs \<and>
      rs \<noteq> [] \<and> hd rs = 1)"
proof -
  have c: "2 \<in> set (pivot_columns (events_mags
       [\<lparr>DTtime = 5, depth = 1, mag = 2.14, latitude = 19, longitude = -155, ex_set = 2\<rparr>,
        \<lparr>DTtime = 6, depth = 1, mag = 2.1, latitude = 19, longitude = -155, ex_set = 2\<rparr>,
        \<lparr>DTtime = 7, depth = 1, mag = 3, latitude = 19, longitude = -155, ex_set = 2\<rparr>]))"
    by (simp add: pivot_columns_def events_mags_def)
  show ?thesis using c cumulative_counts_nonincreasing [OF c] by blast
qed

end
